theory Spec2Isabelle
  imports Complex_Main
begin

section \<open>JavaScript values used by the Xcode utilities\<close>

text \<open>
  Strings are lists of 8-bit characters, read as the code units 0 to 255 of a JavaScript
  string. An optional parameter or field (\<^verbatim>\<open>x?: string\<close>) is an \<open>option\<close>: \<open>None\<close> is
  \<^verbatim>\<open>undefined\<close>. A string is truthy when it is defined and not empty.
\<close>

definition truthy :: "string option \<Rightarrow> bool" where
  "truthy s = (case s of None \<Rightarrow> False | Some v \<Rightarrow> v \<noteq> [])"

text \<open>What a template literal prints for an optional string.\<close>

fun tmpl :: "string option \<Rightarrow> string" where
  "tmpl None = ''undefined''"
| "tmpl (Some s) = s"

text \<open>\<^verbatim>\<open>a || b\<close> on strings.\<close>

definition or_else :: "string option \<Rightarrow> string \<Rightarrow> string" where
  "or_else a b = (if truthy a then tmpl a else b)"

text \<open>An exception raised with \<^verbatim>\<open>throw new Error(message)\<close>.\<close>

datatype js_error = Error string

section \<open>Platforms\<close>

datatype XcodePlatform =
    macOS | iOS | iOSSimulator | watchOS | watchOSSimulator
  | tvOS | tvOSSimulator | visionOS | visionOSSimulator

text \<open>
  Modelled from the spec: the enum \<^verbatim>\<open>XcodePlatform\<close> is declared in
  \<^verbatim>\<open>types/common.ts\<close>, which is not among the source files. Its members are the
  spec's closed enumeration of platforms, and the string value of each member is the
  platform name as it appears in the destinations of the spec and of the tools' examples
  (\<^verbatim>\<open>platform=iOS Simulator,id=ABC-123\<close>, \<^verbatim>\<open>generic/platform=watchOS\<close>).
\<close>

fun platform_str :: "XcodePlatform \<Rightarrow> string" where
  "platform_str macOS = ''macOS''"
| "platform_str iOS = ''iOS''"
| "platform_str iOSSimulator = ''iOS Simulator''"
| "platform_str watchOS = ''watchOS''"
| "platform_str watchOSSimulator = ''watchOS Simulator''"
| "platform_str tvOS = ''tvOS''"
| "platform_str tvOSSimulator = ''tvOS Simulator''"
| "platform_str visionOS = ''visionOS''"
| "platform_str visionOSSimulator = ''visionOS Simulator''"

definition isSimulatorPlatform :: "XcodePlatform \<Rightarrow> bool" where
  "isSimulatorPlatform platform =
     (platform \<in> set [iOSSimulator, watchOSSimulator, tvOSSimulator, visionOSSimulator])"

section \<open>The destination resolver\<close>

text \<open>
  \<^verbatim>\<open>constructDestinationString(platform, simulatorName?, simulatorId?, useLatest = true, arch?)\<close>
  of \<^verbatim>\<open>utils/xcode.ts\<close>. The default value of \<^verbatim>\<open>useLatest\<close> applies when the
  argument is \<^verbatim>\<open>undefined\<close>. The function either returns the destination (\<open>Inr\<close>) or
  throws (\<open>Inl\<close>).
\<close>

definition constructDestinationString ::
  "XcodePlatform \<Rightarrow> string option \<Rightarrow> string option \<Rightarrow> bool option \<Rightarrow> string option
     \<Rightarrow> js_error + string" where
  "constructDestinationString platform simulatorName simulatorId useLatestArg arch =
     (let useLatest = (case useLatestArg of None \<Rightarrow> True | Some b \<Rightarrow> b) in
      if isSimulatorPlatform platform \<and> truthy simulatorId then
        Inr (''platform='' @ platform_str platform @ '',id='' @ tmpl simulatorId)
      else if isSimulatorPlatform platform \<and> truthy simulatorName then
        Inr (''platform='' @ platform_str platform @ '',name='' @ tmpl simulatorName
               @ (if useLatest then '',OS=latest'' else ''''))
      else if isSimulatorPlatform platform \<and> \<not> truthy simulatorId \<and> \<not> truthy simulatorName then
        Inl (Error (''Simulator name or ID is required for specific '' @ platform_str platform
               @ '' operations''))
      else
        (case platform of
           macOS \<Rightarrow> Inr (if truthy arch then ''platform=macOS,arch='' @ tmpl arch
                         else ''platform=macOS'')
         | iOS \<Rightarrow> Inr ''generic/platform=iOS''
         | watchOS \<Rightarrow> Inr ''generic/platform=watchOS''
         | tvOS \<Rightarrow> Inr ''generic/platform=tvOS''
         | visionOS \<Rightarrow> Inr ''generic/platform=visionOS''
         | _ \<Rightarrow> Inr (''platform='' @ platform_str platform)))"

section \<open>Common parameters\<close>

record XcodeParams =
  workspacePath :: "string option"
  projectPath :: "string option"
  scheme :: "string option"
  configuration :: "string option"
  derivedDataPath :: "string option"
  platform :: "XcodePlatform option"
  destination :: "string option"
  simulatorName :: "string option"
  simulatorId :: "string option"
  useLatestOS :: "bool option"
  arch :: "string option"
  extraArgs :: "string list option"

text \<open>
  \<^verbatim>\<open>addXcodeParameters(command, params, logPrefix)\<close> pushes onto the command array; the
  model returns the array after the call. Every platform value is a non-empty string, so
  \<^verbatim>\<open>params.platform\<close> is truthy exactly when it is defined. The \<^verbatim>\<open>try/catch\<close> around the
  resolver is the case distinction on its result. The calls of the logger write to a
  collaborator outside these files and leave the array alone.
\<close>

definition addXcodeParameters :: "string list \<Rightarrow> XcodeParams \<Rightarrow> string list" where
  "addXcodeParameters command params =
     (let c1 = (if truthy (workspacePath params) then command @ [''-workspace'', tmpl (workspacePath params)]
                else if truthy (projectPath params) then command @ [''-project'', tmpl (projectPath params)]
                else command);
          c2 = (if truthy (scheme params) then c1 @ [''-scheme'', tmpl (scheme params)] else c1);
          c3 = (if truthy (configuration params)
                then c2 @ [''-configuration'', tmpl (configuration params)] else c2);
          c4 = (if truthy (derivedDataPath params)
                then c3 @ [''-derivedDataPath'', tmpl (derivedDataPath params)] else c3);
          c5 = (if truthy (destination params) then c4 @ [''-destination'', tmpl (destination params)]
                else (case platform params of
                        None \<Rightarrow> c4
                      | Some p \<Rightarrow>
                          (case constructDestinationString p (simulatorName params) (simulatorId params)
                                  (Some (case useLatestOS params of None \<Rightarrow> True | Some b \<Rightarrow> b)) None of
                             Inr dest \<Rightarrow> c4 @ [''-destination'', dest]
                           | Inl err \<Rightarrow> c4)))
      in (case extraArgs params of
            None \<Rightarrow> c5
          | Some args \<Rightarrow> (if length args > 0 then c5 @ args else c5)))"

section \<open>Argument quoting\<close>

text \<open>
  The characters the quoting step of \<^verbatim>\<open>executeXcodeCommand\<close> looks at. Among the code
  units 0 to 255 the class \<^verbatim>\<open>\s\<close> holds TAB, LF, VT, FF, CR, SPACE and NBSP, and \<^verbatim>\<open>.\<close>
  matches everything but the line terminators LF and CR.
\<close>

definition dquote :: char where "dquote = CHR 0x22"
definition squote :: char where "squote = CHR 0x27"
definition backslash :: char where "backslash = CHR 0x5C"

definition is_space :: "char \<Rightarrow> bool" where
  "is_space c = (c = CHR 0x09 \<or> c = CHR 0x0A \<or> c = CHR 0x0B \<or> c = CHR 0x0C \<or> c = CHR 0x0D
                 \<or> c = CHR 0x20 \<or> c = CHR 0xA0)"

definition line_terminator :: "char \<Rightarrow> bool" where
  "line_terminator c = (c = CHR 0x0A \<or> c = CHR 0x0D)"

text \<open>\<^verbatim>\<open>/[\s,"'=]/.test(arg)\<close>\<close>

definition needs_quoting :: "string \<Rightarrow> bool" where
  "needs_quoting arg =
     list_ex (\<lambda>c. is_space c \<or> c = CHR '','' \<or> c = dquote \<or> c = squote \<or> c = CHR ''='') arg"

text \<open>
  \<^verbatim>\<open>/^".*"$/.test(arg)\<close>: a double quote at each end (two distinct characters) and no
  line terminator between them.
\<close>

definition already_quoted :: "string \<Rightarrow> bool" where
  "already_quoted arg =
     (case arg of
        [] \<Rightarrow> False
      | c # cs \<Rightarrow> c = dquote \<and> cs \<noteq> [] \<and> last cs = dquote
                  \<and> list_all (\<lambda>x. \<not> line_terminator x) (butlast cs))"

text \<open>\<^verbatim>\<open>arg.replace(/(["\\])/g, '\\$1')\<close>\<close>

fun escape :: "string \<Rightarrow> string" where
  "escape [] = []"
| "escape (c # cs) = (if c = dquote \<or> c = backslash then backslash # c # escape cs
                      else c # escape cs)"

definition quote_arg :: "string \<Rightarrow> string" where
  "quote_arg arg =
     (if needs_quoting arg \<and> \<not> already_quoted arg then dquote # escape arg @ [dquote] else arg)"

text \<open>\<^verbatim>\<open>parts.join(sep)\<close>\<close>

fun join :: "string \<Rightarrow> string list \<Rightarrow> string" where
  "join sep [] = []"
| "join sep [x] = x"
| "join sep (x # y # ys) = x @ sep @ join sep (y # ys)"

definition commandString_of :: "string list \<Rightarrow> string" where
  "commandString_of command = join '' '' (map quote_arg command)"

section \<open>String and number helpers of the executor\<close>

text \<open>\<^verbatim>\<open>line.includes(part)\<close>\<close>

fun starts_with :: "string \<Rightarrow> string \<Rightarrow> bool" where
  "starts_with s [] = True"
| "starts_with [] (p # ps) = False"
| "starts_with (c # cs) (p # ps) = (c = p \<and> starts_with cs ps)"

fun includes_str :: "string \<Rightarrow> string \<Rightarrow> bool" where
  "includes_str [] part = (part = [])"
| "includes_str (c # cs) part = (starts_with (c # cs) part \<or> includes_str cs part)"

text \<open>\<^verbatim>\<open>chunk.split('\n')\<close>: always at least one line.\<close>

fun split_lines :: "string \<Rightarrow> string list" where
  "split_lines [] = [[]]"
| "split_lines (c # cs) =
     (if c = CHR 0x0A then [] # split_lines cs
      else (case split_lines cs of l # ls \<Rightarrow> (c # l) # ls | [] \<Rightarrow> [[c]]))"

definition is_digit :: "char \<Rightarrow> bool" where
  "is_digit c = (c \<in> set ''0123456789'')"

text \<open>The value of a decimal digit: its place in \<^verbatim>\<open>0123456789\<close>.\<close>

definition digit_value :: "char \<Rightarrow> int" where
  "digit_value c = int (length (takeWhile (\<lambda>d. d \<noteq> c) ''0123456789''))"

text \<open>
  \<^verbatim>\<open>parseInt(digits, 10)\<close> on a run of decimal digits. Numbers are exact here; the
  source's are IEEE doubles, exact on integers below \<open>2^53\<close>.
\<close>

definition parseInt :: "string \<Rightarrow> int" where
  "parseInt ds = foldl (\<lambda>acc c. acc * 10 + digit_value c) 0 ds"

text \<open>
  The first match of \<^verbatim>\<open>/(\d+) of (\d+) files/\<close> in a line, as its two groups. A match
  that starts at a digit takes the whole run of digits from there (what follows a run is
  not a digit, so a shorter run cannot be followed by the literal text), and the search
  moves right one character at a time.
\<close>

definition match_here :: "string \<Rightarrow> (string \<times> string) option" where
  "match_here s =
     (let d1 = takeWhile is_digit s; r1 = dropWhile is_digit s in
      if d1 \<noteq> [] \<and> starts_with r1 '' of '' then
        (let r2 = drop 4 r1; d2 = takeWhile is_digit r2; r3 = dropWhile is_digit r2 in
         if d2 \<noteq> [] \<and> starts_with r3 '' files'' then Some (d1, d2) else None)
      else None)"

fun fileCountMatch :: "string \<Rightarrow> (string \<times> string) option" where
  "fileCountMatch [] = None"
| "fileCountMatch (c # cs) =
     (case match_here (c # cs) of Some m \<Rightarrow> Some m | None \<Rightarrow> fileCountMatch cs)"

text \<open>A number in a template literal: decimal digits, with a sign when negative.\<close>

fun show_nat :: "nat \<Rightarrow> string" where
  "show_nat n = (if n < 10 then [''0123456789'' ! n]
                 else show_nat (n div 10) @ [''0123456789'' ! (n mod 10)])"

declare show_nat.simps [simp del]

definition show_int :: "int \<Rightarrow> string" where
  "show_int i = (if i < 0 then CHR ''-'' # show_nat (nat (- i)) else show_nat (nat i))"

text \<open>\<^verbatim>\<open>buildPhases.indexOf(phase)\<close>\<close>

fun indexOf :: "string list \<Rightarrow> string \<Rightarrow> int" where
  "indexOf [] x = - 1"
| "indexOf (y # ys) x = (if y = x then 0 else (let i = indexOf ys x in if i < 0 then - 1 else i + 1))"

section \<open>The command executor\<close>

subsection \<open>Results, progress updates and effects\<close>

record XcodeCommandResponse =
  success :: bool
  "output" :: string
  error :: "string option"

datatype status = running | completed | failed

text \<open>
  \<^verbatim>\<open>ToolProgressUpdate\<close>, without its \<^verbatim>\<open>timestamp\<close> (the wall-clock time of the call).
  Progress is a JavaScript number; the model computes it in exact rationals.
\<close>

record ToolProgressUpdate =
  operationId :: string
  status :: status
  progress :: rat
  message :: string
  details :: "string option"

text \<open>
  What an execution does to the outside, in order: a call of the progress callback, the
  start of a child process \<^verbatim>\<open>spawn('sh', ['-c', commandString], ...)\<close>, a call of the
  xcpretty helper. Calls of the logger are left out.
\<close>

datatype effect = Progress ToolProgressUpdate | Spawn string | Xcpretty string

subsection \<open>The environment of an execution\<close>

text \<open>
  The events a child process raises on the listeners of \<^verbatim>\<open>executeStandard\<close>: a chunk on
  standard output, a chunk on standard error, \<^verbatim>\<open>'close'\<close> with the exit code (\<open>None\<close> is
  \<^verbatim>\<open>null\<close>, a process ended by a signal) and \<^verbatim>\<open>'error'\<close> with the message of the error.
\<close>

datatype proc_event = StdoutData string | StderrData string | Close "int option" | ProcError string

record XcprettyProgressData =
  data_phase :: "string option"
  data_message :: "string option"
  data_fileCount :: "int option"
  data_fileIndex :: "int option"

record XcprettyResult =
  result_status :: int
  result_output :: string
  result_error :: "string option"

text \<open>
  What a call of the xcpretty helper does: it throws at once, or it returns a promise,
  calls \<^verbatim>\<open>onProgress\<close> on the given data in turn, and the promise is then rejected with an
  error (\<open>Inl\<close>) or fulfilled with a result (\<open>Inr\<close>).
\<close>

datatype xcpretty_run =
    XcThrows string
  | XcSettles "XcprettyProgressData list" "js_error + XcprettyResult"

text \<open>
  Everything an execution reads from outside: whether \<^verbatim>\<open>typeof xcpretty === 'function'\<close>,
  what the helper does on a command string, the events of the child process spawned for a
  command string, the value of the \<open>n\<close>-th call of \<^verbatim>\<open>Date.now()\<close>, and the identifier
  \<^verbatim>\<open>uuidv4()\<close> returns.
\<close>

record environment =
  xcprettyIsFunction :: bool
  xcprettyFn :: "string \<Rightarrow> xcpretty_run"
  childProcess :: "string \<Rightarrow> proc_event list"
  now :: "nat \<Rightarrow> int"
  uuidv4 :: string

subsection \<open>The local state of one execution\<close>

record exec_state =
  stdout :: string
  stderr :: string
  currentPhase :: string
  totalFiles :: int
  processedFiles :: int
  estimatedProgress :: rat
  lastProgressUpdate :: int
  clockReads :: nat
  effects :: "effect list"
  resolved :: "XcodeCommandResponse option"

definition buildPhases :: "string list" where
  "buildPhases = [''CompileC'', ''CompileSwift'', ''Linking'', ''CodeSign'']"

definition progressUpdateInterval :: int where
  "progressUpdateInterval = 1000"

text \<open>\<^verbatim>\<open>resolve(response)\<close>: only the first call settles the promise.\<close>

definition resolve :: "XcodeCommandResponse \<Rightarrow> exec_state \<Rightarrow> exec_state" where
  "resolve r s = (case resolved s of None \<Rightarrow> s\<lparr>resolved := Some r\<rparr> | Some _ \<Rightarrow> s)"

definition emit :: "ToolProgressUpdate \<Rightarrow> exec_state \<Rightarrow> exec_state" where
  "emit u s = s\<lparr>effects := effects s @ [Progress u]\<rparr>"

text \<open>
  The parameter \<open>cb\<close> of the functions below tells whether a progress callback was
  supplied; its calls are the \<open>Progress\<close> effects.
\<close>

subsection \<open>\<^verbatim>\<open>executeStandard\<close>\<close>

definition sendProgressUpdate ::
  "environment \<Rightarrow> bool \<Rightarrow> string option \<Rightarrow> string \<Rightarrow> bool \<Rightarrow> exec_state \<Rightarrow> exec_state" where
  "sendProgressUpdate env cb opId msg forceSend s =
     (let t = now env (clockReads s); s1 = s\<lparr>clockReads := Suc (clockReads s)\<rparr> in
      if cb \<and> (forceSend \<or> t - lastProgressUpdate s > progressUpdateInterval) then
        emit \<lparr>operationId = or_else opId (uuidv4 env), status = running,
              progress = estimatedProgress s, message = msg,
              details = Some (''Phase: '' @ (if currentPhase s \<noteq> [] then currentPhase s
                                             else ''Preparing''))\<rparr>
          (s1\<lparr>lastProgressUpdate := t\<rparr>)
      else s1)"

text \<open>
  The body of \<^verbatim>\<open>for (const phase of buildPhases)\<close> for a phase the line includes, in
  its three steps: the phase transition, the count of compiled files, the throttled
  update. The loop is left at the first such phase.
\<close>

definition enter_phase ::
  "environment \<Rightarrow> bool \<Rightarrow> string option \<Rightarrow> string \<Rightarrow> exec_state \<Rightarrow> exec_state" where
  "enter_phase env cb opId phase s =
     (if currentPhase s \<noteq> phase then
        sendProgressUpdate env cb opId (phase @ '' phase...'') True
          (s\<lparr>currentPhase := phase,
             estimatedProgress := min (of_int \<lfloor>25 * (of_int (indexOf buildPhases phase) :: rat)\<rfloor>) 90\<rparr>)
      else s)"

definition count_file :: "string \<Rightarrow> exec_state \<Rightarrow> exec_state" where
  "count_file phase s =
     (if phase = ''CompileC'' \<or> phase = ''CompileSwift'' then
        (let s' = s\<lparr>processedFiles := processedFiles s + 1\<rparr> in
         if totalFiles s' > 0 then
           (let phaseProgress =
                  min (of_int \<lfloor>of_int (processedFiles s') / of_int (totalFiles s') * (100 :: rat)\<rfloor>)
                      (100 :: rat)
            in s'\<lparr>estimatedProgress := min (estimatedProgress s' + phaseProgress / 4) 95\<rparr>)
         else s')
      else s)"

fun phase_loop ::
  "environment \<Rightarrow> bool \<Rightarrow> string option \<Rightarrow> string list \<Rightarrow> string \<Rightarrow> exec_state \<Rightarrow> exec_state" where
  "phase_loop env cb opId [] line s = s"
| "phase_loop env cb opId (phase # rest) line s =
     (if includes_str line phase then
        sendProgressUpdate env cb opId (''Processing: '' @ take 80 line @ ''...'') False
          (count_file phase (enter_phase env cb opId phase s))
      else phase_loop env cb opId rest line s)"

text \<open>The \<^verbatim>\<open>x of y files\<close> pattern of a line.\<close>

definition file_count_step ::
  "environment \<Rightarrow> bool \<Rightarrow> string option \<Rightarrow> string \<Rightarrow> exec_state \<Rightarrow> exec_state" where
  "file_count_step env cb opId line s =
     (case fileCountMatch line of
        None \<Rightarrow> s
      | Some (g1, g2) \<Rightarrow>
          (let s1 = s\<lparr>processedFiles := parseInt g1, totalFiles := parseInt g2\<rparr> in
           if totalFiles s1 > 0 then
             sendProgressUpdate env cb opId
               (''Processing file '' @ show_int (processedFiles s1) @ '' of '' @ show_int (totalFiles s1))
               True
               (s1\<lparr>estimatedProgress :=
                      min (of_int \<lfloor>of_int (processedFiles s1) / of_int (totalFiles s1) * (90 :: rat)\<rfloor>) 95\<rparr>)
           else s1))"

definition process_line ::
  "environment \<Rightarrow> bool \<Rightarrow> string option \<Rightarrow> exec_state \<Rightarrow> string \<Rightarrow> exec_state" where
  "process_line env cb opId s line =
     file_count_step env cb opId line (phase_loop env cb opId buildPhases line s)"

text \<open>The listener of \<^verbatim>\<open>process.stdout.on('data', ...)\<close>.\<close>

definition on_stdout ::
  "environment \<Rightarrow> bool \<Rightarrow> string option \<Rightarrow> string \<Rightarrow> exec_state \<Rightarrow> exec_state" where
  "on_stdout env cb opId chunk s =
     (let s1 = s\<lparr>stdout := stdout s @ chunk\<rparr> in
      if cb then foldl (process_line env cb opId) s1 (split_lines chunk) else s1)"

text \<open>The listener of \<^verbatim>\<open>process.stderr.on('data', ...)\<close>.\<close>

definition on_stderr ::
  "environment \<Rightarrow> bool \<Rightarrow> string option \<Rightarrow> string \<Rightarrow> exec_state \<Rightarrow> exec_state" where
  "on_stderr env cb opId chunk s =
     (let s1 = s\<lparr>stderr := stderr s @ chunk\<rparr> in
      if cb then sendProgressUpdate env cb opId (''Warning: '' @ take 100 chunk @ ''...'') True s1
      else s1)"

text \<open>An exit code in a template literal.\<close>

fun show_code :: "int option \<Rightarrow> string" where
  "show_code None = ''null''"
| "show_code (Some n) = show_int n"

text \<open>The listener of \<^verbatim>\<open>process.on('close', ...)\<close>.\<close>

definition on_close ::
  "environment \<Rightarrow> bool \<Rightarrow> string option \<Rightarrow> string \<Rightarrow> int option \<Rightarrow> exec_state \<Rightarrow> exec_state" where
  "on_close env cb opId logPrefix exitCode s =
     (let ok = (exitCode = Some 0);
          s1 = (if cb then
                  emit \<lparr>operationId = or_else opId (uuidv4 env),
                        status = (if ok then completed else failed),
                        progress = (if ok then 100 else estimatedProgress s),
                        message = (if ok then logPrefix @ '' completed successfully''
                                   else logPrefix @ '' failed with exit code '' @ show_code exitCode),
                        details = (if ok then None else Some (take 500 (stderr s)))\<rparr> s
                else s)
      in if ok then
           resolve \<lparr>success = True,
                    output = (if stdout s \<noteq> [] then stdout s
                              else logPrefix @ '' operation completed successfully''),
                    error = None\<rparr> s1
         else
           resolve \<lparr>success = False, output = stdout s,
                    error = Some (if stderr s \<noteq> [] then stderr s
                                  else ''Operation failed with exit code '' @ show_code exitCode
                                         @ ''. No stderr output.'')\<rparr> s1)"

text \<open>The listener of \<^verbatim>\<open>process.on('error', ...)\<close>.\<close>

definition on_error ::
  "environment \<Rightarrow> bool \<Rightarrow> string option \<Rightarrow> string \<Rightarrow> string \<Rightarrow> exec_state \<Rightarrow> exec_state" where
  "on_error env cb opId logPrefix errMessage s =
     (let s1 = (if cb then
                  emit \<lparr>operationId = or_else opId (uuidv4 env), status = failed, progress = 0,
                        message = ''Failed to start '' @ logPrefix @ '' process: '' @ errMessage,
                        details = None\<rparr> s
                else s)
      in resolve \<lparr>success = False, output = stdout s,
                  error = Some (''Failed to start process: '' @ errMessage)\<rparr> s1)"

fun handle_event ::
  "environment \<Rightarrow> bool \<Rightarrow> string option \<Rightarrow> string \<Rightarrow> exec_state \<Rightarrow> proc_event \<Rightarrow> exec_state" where
  "handle_event env cb opId logPrefix s (StdoutData chunk) = on_stdout env cb opId chunk s"
| "handle_event env cb opId logPrefix s (StderrData chunk) = on_stderr env cb opId chunk s"
| "handle_event env cb opId logPrefix s (Close exitCode) = on_close env cb opId logPrefix exitCode s"
| "handle_event env cb opId logPrefix s (ProcError m) = on_error env cb opId logPrefix m s"

definition standard_init :: "string \<Rightarrow> exec_state" where
  "standard_init commandString =
     \<lparr>stdout = [], stderr = [], currentPhase = [], totalFiles = 0, processedFiles = 0,
      estimatedProgress = 0, lastProgressUpdate = 0, clockReads = 0,
      effects = [Spawn commandString], resolved = None\<rparr>"

text \<open>
  \<^verbatim>\<open>executeStandard\<close> spawns the shell and registers the four listeners; the run is the
  listeners applied to the events of the child process in their order. The value is the
  response the returned promise is resolved with (\<open>None\<close> when it never is) and the
  effects of the run.
\<close>

definition executeStandard ::
  "environment \<Rightarrow> string \<Rightarrow> string \<Rightarrow> bool \<Rightarrow> string option
     \<Rightarrow> XcodeCommandResponse option \<times> effect list" where
  "executeStandard env commandString logPrefix cb opId =
     (let s = foldl (handle_event env cb opId logPrefix) (standard_init commandString)
                (childProcess env commandString)
      in (resolved s, effects s))"

subsection \<open>\<^verbatim>\<open>executeWithXcpretty\<close>\<close>

text \<open>A number is truthy when it is defined and not zero.\<close>

definition truthy_num :: "int option \<Rightarrow> bool" where
  "truthy_num n = (case n of None \<Rightarrow> False | Some v \<Rightarrow> v \<noteq> 0)"

text \<open>The \<^verbatim>\<open>onProgress\<close> callback handed to the helper.\<close>

definition onProgress ::
  "environment \<Rightarrow> bool \<Rightarrow> string option \<Rightarrow> exec_state \<Rightarrow> XcprettyProgressData \<Rightarrow> exec_state" where
  "onProgress env cb opId s d =
     (if cb then
        (let s1 = (if truthy (data_phase d) then
                     (let ph = tmpl (data_phase d) in
                      s\<lparr>currentPhase := ph,
                        estimatedProgress :=
                          (if ph = ''Clean'' then 5
                           else if ph = ''Compile'' then 25
                           else if ph = ''Link'' then 75
                           else if ph = ''Copy'' \<or> ph = ''CodeSign'' then 90
                           else estimatedProgress s)\<rparr>)
                   else s);
             s2 = (if truthy_num (data_fileCount d) \<and> truthy_num (data_fileIndex d) then
                     s1\<lparr>estimatedProgress :=
                          min (of_int \<lfloor>of_int (the (data_fileIndex d)) / of_int (the (data_fileCount d))
                                         * (100 :: rat)\<rfloor>) 95\<rparr>
                   else s1);
             t = now env (clockReads s2);
             s3 = s2\<lparr>clockReads := Suc (clockReads s2)\<rparr>
         in if t - lastProgressUpdate s3 > progressUpdateInterval then
              emit \<lparr>operationId = or_else opId (uuidv4 env), status = running,
                    progress = estimatedProgress s3,
                    message = or_else (data_message d) (''Processing '' @ currentPhase s3 @ ''...''),
                    details = Some (''Phase: '' @ currentPhase s3)\<rparr>
                (s3\<lparr>lastProgressUpdate := t\<rparr>)
            else s3)
      else s)"

text \<open>The \<^verbatim>\<open>.then\<close> continuation.\<close>

definition on_fulfilled ::
  "environment \<Rightarrow> bool \<Rightarrow> string option \<Rightarrow> string \<Rightarrow> XcprettyResult \<Rightarrow> exec_state \<Rightarrow> exec_state" where
  "on_fulfilled env cb opId logPrefix r s =
     (let ok = (result_status r = 0);
          s1 = (if cb then
                  emit \<lparr>operationId = or_else opId (uuidv4 env),
                        status = (if ok then completed else failed),
                        progress = (if ok then 100 else estimatedProgress s),
                        message = (if ok then logPrefix @ '' completed successfully''
                                   else logPrefix @ '' failed with status code ''
                                          @ show_int (result_status r)),
                        details = (if ok then None
                                   else map_option (take 500) (result_error r))\<rparr> s
                else s)
      in if ok then
           resolve \<lparr>success = True,
                    output = or_else (Some (result_output r))
                               (logPrefix @ '' operation completed successfully''),
                    error = None\<rparr> s1
         else
           resolve \<lparr>success = False, output = or_else (Some (result_output r)) [],
                    error = Some (or_else (result_error r)
                                    (''Operation failed with status code ''
                                       @ show_int (result_status r)))\<rparr> s1)"

text \<open>The \<^verbatim>\<open>.catch\<close> continuation.\<close>

definition on_rejected ::
  "environment \<Rightarrow> bool \<Rightarrow> string option \<Rightarrow> string \<Rightarrow> exec_state \<Rightarrow> exec_state" where
  "on_rejected env cb opId errMessage s =
     (let s1 = (if cb then
                  emit \<lparr>operationId = or_else opId (uuidv4 env), status = failed,
                        progress = estimatedProgress s,
                        message = ''Failed during xcpretty execution: '' @ errMessage,
                        details = None\<rparr> s
                else s)
      in resolve \<lparr>success = False, output = [],
                  error = Some (''Failed during xcpretty execution: '' @ errMessage)\<rparr> s1)"

definition xcpretty_init :: "string \<Rightarrow> exec_state" where
  "xcpretty_init commandString =
     \<lparr>stdout = [], stderr = [], currentPhase = ''Preparing'', totalFiles = 0, processedFiles = 0,
      estimatedProgress = 0, lastProgressUpdate = 0, clockReads = 0,
      effects = [Xcpretty commandString], resolved = None\<rparr>"

text \<open>
  \<^verbatim>\<open>executeWithXcpretty\<close>. When the call of the helper throws, the \<^verbatim>\<open>catch\<close> block runs
  \<^verbatim>\<open>executeStandard\<close> and returns its promise from the executor function of
  \<^verbatim>\<open>new Promise\<close>; the value an executor returns is dropped and \<^verbatim>\<open>resolve\<close> is not
  called, so the promise of \<^verbatim>\<open>executeWithXcpretty\<close> stays pending: the effects of the
  standard run happen, its response reaches nobody.
\<close>

definition executeWithXcpretty ::
  "environment \<Rightarrow> string \<Rightarrow> string \<Rightarrow> bool \<Rightarrow> string option
     \<Rightarrow> XcodeCommandResponse option \<times> effect list" where
  "executeWithXcpretty env commandString logPrefix cb opId =
     (case xcprettyFn env commandString of
        XcThrows m \<Rightarrow>
          (None, Xcpretty commandString # snd (executeStandard env commandString logPrefix cb opId))
      | XcSettles ds settled \<Rightarrow>
          (let s = foldl (onProgress env cb opId) (xcpretty_init commandString) ds;
               s' = (case settled of
                       Inr r \<Rightarrow> on_fulfilled env cb opId logPrefix r s
                     | Inl (Error m) \<Rightarrow> on_rejected env cb opId m s)
           in (resolved s', effects s')))"

subsection \<open>\<^verbatim>\<open>executeXcodeCommand\<close>\<close>

definition useXcpretty :: "environment \<Rightarrow> string list \<Rightarrow> bool" where
  "useXcpretty env command =
     ((case command of [] \<Rightarrow> False | c # _ \<Rightarrow> c = ''xcodebuild'') \<and> xcprettyIsFunction env)"

definition executeXcodeCommand ::
  "environment \<Rightarrow> string list \<Rightarrow> string \<Rightarrow> bool \<Rightarrow> XcodeCommandResponse option \<times> effect list" where
  "executeXcodeCommand env command logPrefix cb =
     (let commandString = commandString_of command;
          opId = uuidv4 env;
          first = (if cb then
                     [Progress \<lparr>operationId = opId, status = running, progress = 0,
                                message = ''Starting '' @ logPrefix @ ''...'', details = None\<rparr>]
                   else []);
          run = (if useXcpretty env command
                 then executeWithXcpretty env commandString logPrefix cb (Some opId)
                 else executeStandard env commandString logPrefix cb (Some opId))
      in (fst run, first @ snd run))"

text \<open>The calls of the progress callback among the effects, in order.\<close>

fun updates :: "effect list \<Rightarrow> ToolProgressUpdate list" where
  "updates [] = []"
| "updates (Progress u # es) = u # updates es"
| "updates (_ # es) = updates es"

text \<open>The command strings of the child processes started.\<close>

fun spawned :: "effect list \<Rightarrow> string list" where
  "spawned [] = []"
| "spawned (Spawn c # es) = c # spawned es"
| "spawned (_ # es) = spawned es"

section \<open>Building\<close>

text \<open>
  The parameters of \<^verbatim>\<open>executeXcodeBuild\<close> in \<^verbatim>\<open>utils/build-utils.ts\<close>. The fields of
  \<^verbatim>\<open>SharedBuildParams\<close> and \<^verbatim>\<open>PlatformBuildOptions\<close> carry the prefixes \<open>sb_\<close> and
  \<open>po_\<close>, the plain names being those of \<open>XcodeParams\<close>.
\<close>

record SharedBuildParams =
  sb_workspacePath :: "string option"
  sb_projectPath :: "string option"
  sb_scheme :: string
  sb_configuration :: string
  sb_derivedDataPath :: "string option"
  sb_extraArgs :: "string list option"

record PlatformBuildOptions =
  po_platform :: XcodePlatform
  po_simulatorName :: "string option"
  po_simulatorId :: "string option"
  po_useLatestOS :: "bool option"
  po_arch :: "string option"
  po_logPrefix :: string

text \<open>
  How a call of \<^verbatim>\<open>executeXcodeBuild\<close> goes up to the executor: it returns
  \<^verbatim>\<open>createTextResponse(text, isError)\<close> before any command is run (\<open>Responded\<close>; the
  formatter is declared in \<^verbatim>\<open>utils/validation.ts\<close>, outside these files), or it hands a
  command to \<^verbatim>\<open>executeXcodeCommand\<close> and awaits the response (\<open>Executed\<close>, with the
  command, the response and the effects). The text built from the awaited response
  (warnings, next steps) is not part of this development.
\<close>

datatype build_outcome =
    Responded string bool
  | Executed "string list" "XcodeCommandResponse option" "effect list"

text \<open>The destination of a build: \<open>Inl\<close> is an early \<^verbatim>\<open>createTextResponse\<close>, thrown errors are \<open>Inr (Inl _)\<close>.\<close>

definition buildDestination :: "PlatformBuildOptions \<Rightarrow> (string \<times> bool) + (js_error + string)" where
  "buildDestination po =
     (if isSimulatorPlatform (po_platform po) then
        (if truthy (po_simulatorId po) then
           Inr (constructDestinationString (po_platform po) None (po_simulatorId po) None None)
         else if truthy (po_simulatorName po) then
           Inr (constructDestinationString (po_platform po) (po_simulatorName po) None
                  (po_useLatestOS po) None)
         else
           Inl (''For '' @ platform_str (po_platform po)
                  @ '' platform, either simulatorId or simulatorName must be provided'', True))
      else if po_platform po = macOS then
        Inr (constructDestinationString (po_platform po) None None (Some False) (po_arch po))
      else if po_platform po = iOS then Inr (Inr ''generic/platform=iOS'')
      else if po_platform po = watchOS then Inr (Inr ''generic/platform=watchOS'')
      else if po_platform po = tvOS then Inr (Inr ''generic/platform=tvOS'')
      else if po_platform po = visionOS then Inr (Inr ''generic/platform=visionOS'')
      else Inl (''Unsupported platform: '' @ platform_str (po_platform po), True))"

definition executeXcodeBuild ::
  "environment \<Rightarrow> SharedBuildParams \<Rightarrow> PlatformBuildOptions \<Rightarrow> string \<Rightarrow> build_outcome" where
  "executeXcodeBuild env params po buildAction =
     (let c0 = [''xcodebuild''];
          c1 = (if truthy (sb_workspacePath params) then c0 @ [''-workspace'', tmpl (sb_workspacePath params)]
                else if truthy (sb_projectPath params) then c0 @ [''-project'', tmpl (sb_projectPath params)]
                else c0);
          c2 = c1 @ [''-scheme'', sb_scheme params] @ [''-configuration'', sb_configuration params]
      in (case buildDestination po of
            Inl (text, isError) \<Rightarrow> Responded text isError
          | Inr (Inl (Error m)) \<Rightarrow>
              Responded (''Error during '' @ po_logPrefix po @ '' '' @ buildAction @ '': '' @ m) True
          | Inr (Inr destinationString) \<Rightarrow>
              (let c3 = c2 @ [''-destination'', destinationString];
                   c4 = (if truthy (sb_derivedDataPath params)
                         then c3 @ [''-derivedDataPath'', tmpl (sb_derivedDataPath params)] else c3);
                   c5 = (case sb_extraArgs params of None \<Rightarrow> c4 | Some args \<Rightarrow> c4 @ args);
                   command = c5 @ [buildAction];
                   run = executeXcodeCommand env command (po_logPrefix po) False
               in Executed command (fst run) (snd run))))"

section \<open>Notions used in the statements\<close>

subsection \<open>Effects, events and updates\<close>

text \<open>
  The effects of a call of \<^verbatim>\<open>executeXcodeBuild\<close>: none when it answers before the executor is
  reached.
\<close>

fun outcome_effects :: "build_outcome \<Rightarrow> effect list" where
  "outcome_effects (Responded text isError) = []"
| "outcome_effects (Executed command response es) = es"

text \<open>
  The tokens \<^verbatim>\<open>addXcodeParameters\<close> appends for the parameters other than the destination,
  and for the extra arguments.
\<close>

definition leading_tokens :: "XcodeParams \<Rightarrow> string list" where
  "leading_tokens params =
     (if truthy (workspacePath params) then [''-workspace'', tmpl (workspacePath params)]
      else if truthy (projectPath params) then [''-project'', tmpl (projectPath params)] else [])
     @ (if truthy (scheme params) then [''-scheme'', tmpl (scheme params)] else [])
     @ (if truthy (configuration params) then [''-configuration'', tmpl (configuration params)] else [])
     @ (if truthy (derivedDataPath params) then [''-derivedDataPath'', tmpl (derivedDataPath params)]
        else [])"

definition extra_tokens :: "XcodeParams \<Rightarrow> string list" where
  "extra_tokens params = (case extraArgs params of None \<Rightarrow> [] | Some args \<Rightarrow> args)"

text \<open>
  The command string reaches the shell or the xcpretty helper.
\<close>

fun runs_command :: "string \<Rightarrow> effect \<Rightarrow> bool" where
  "runs_command c (Spawn c') = (c' = c)"
| "runs_command c (Xcpretty c') = (c' = c)"
| "runs_command c (Progress u) = False"

text \<open>
  Output chunks and termination events of a child process, and the text a list of
  events carries on each stream.
\<close>

fun is_data :: "proc_event \<Rightarrow> bool" where
  "is_data (StdoutData c) = True"
| "is_data (StderrData c) = True"
| "is_data (Close code) = False"
| "is_data (ProcError m) = False"

fun is_termination :: "proc_event \<Rightarrow> bool" where
  "is_termination (StdoutData c) = False"
| "is_termination (StderrData c) = False"
| "is_termination (Close code) = True"
| "is_termination (ProcError m) = True"

fun stdout_of :: "proc_event list \<Rightarrow> string" where
  "stdout_of [] = []"
| "stdout_of (StdoutData c # evs) = c @ stdout_of evs"
| "stdout_of (_ # evs) = stdout_of evs"

fun stderr_of :: "proc_event list \<Rightarrow> string" where
  "stderr_of [] = []"
| "stderr_of (StderrData c # evs) = c @ stderr_of evs"
| "stderr_of (_ # evs) = stderr_of evs"

text \<open>
  No output chunk is delivered after the child process has raised \<^verbatim>\<open>'close'\<close> or
  \<^verbatim>\<open>'error'\<close>.
\<close>

definition well_ordered :: "proc_event list \<Rightarrow> bool" where
  "well_ordered evs = list_all is_termination (dropWhile is_data evs)"

definition is_running :: "ToolProgressUpdate \<Rightarrow> bool" where
  "is_running u = (status u = running)"

definition is_terminal :: "ToolProgressUpdate \<Rightarrow> bool" where
  "is_terminal u = (status u = completed \<or> status u = failed)"


text \<open>
  How many times an execution comes to an end: once for each termination event of the
  child process on the standard path (also when it is entered after the helper threw),
  once when the promise of the xcpretty helper settles.
\<close>

definition settlements :: "environment \<Rightarrow> string list \<Rightarrow> nat" where
  "settlements env command =
     (let c = commandString_of command;
          closings = length (filter is_termination (childProcess env c))
      in if useXcpretty env command then
           (case xcprettyFn env c of XcSettles ds settled \<Rightarrow> 1 | XcThrows m \<Rightarrow> closings)
         else closings)"

subsection \<open>Invariants of a run\<close>

text \<open>
  The estimate stays at or below 95 and the count of processed files is not negative.
\<close>

definition state_ok :: "exec_state \<Rightarrow> bool" where
  "state_ok s = (estimatedProgress s \<le> 95 \<and> 0 \<le> processedFiles s)"

text \<open>
  A step of a run that leaves the captured streams and the promise alone and calls the
  callback with running updates of at most 95 only.
\<close>

fun running_update :: "effect \<Rightarrow> bool" where
  "running_update (Progress u) = (status u = running \<and> progress u \<le> 95)"
| "running_update (Spawn c) = False"
| "running_update (Xcpretty c) = False"

definition advances :: "exec_state \<Rightarrow> exec_state \<Rightarrow> bool" where
  "advances s s' =
     (stdout s' = stdout s \<and> stderr s' = stderr s \<and> resolved s' = resolved s \<and> state_ok s'
      \<and> (\<exists>es. effects s' = effects s @ es \<and> list_all running_update es))"

text \<open>
  The same for a step that captures output: \<open>out\<close> and \<open>err\<close> are appended to the streams.
\<close>

definition data_advance :: "string \<Rightarrow> string \<Rightarrow> exec_state \<Rightarrow> exec_state \<Rightarrow> bool" where
  "data_advance out err s s' =
     (stdout s' = stdout s @ out \<and> stderr s' = stderr s @ err \<and> resolved s' = resolved s
      \<and> state_ok s'
      \<and> (\<exists>es. effects s' = effects s @ es \<and> list_all running_update es))"

text \<open>
  The response the close listener resolves the promise with, as a function of the exit
  code and the captured streams.
\<close>

definition close_response :: "string \<Rightarrow> int option \<Rightarrow> string \<Rightarrow> string \<Rightarrow> XcodeCommandResponse" where
  "close_response logPrefix exitCode out err =
     (if exitCode = Some 0 then
        \<lparr>success = True,
         output = (if out \<noteq> [] then out else logPrefix @ '' operation completed successfully''),
         error = None\<rparr>
      else
        \<lparr>success = False, output = out,
         error = Some (if err \<noteq> [] then err
                       else ''Operation failed with exit code '' @ show_code exitCode
                              @ ''. No stderr output.'')\<rparr>)"






text \<open>
  Updates with exactly one terminal update, nothing but terminal updates from the first
  terminal one on.
\<close>

definition exactly_one_terminal_last :: "ToolProgressUpdate list \<Rightarrow> bool" where
  "exactly_one_terminal_last us =
     (length (filter is_terminal us) = 1 \<and> list_all is_terminal (dropWhile is_running us))"

text \<open>
  The shape of a response: the error text is present exactly when the command failed.
\<close>

definition well_shaped :: "XcodeCommandResponse \<Rightarrow> bool" where
  "well_shaped r = (success r = (error r = None))"

subsection \<open>Sample inputs\<close>

text \<open>
  A token in double quotes with a line feed inside.
\<close>

definition newline_token :: string where
  "newline_token = [dquote, CHR ''a'', CHR 0x0A, CHR ''b'', dquote]"

text \<open>
  A shell that cannot be started: the child process raises \<^verbatim>\<open>'error'\<close> and then, its
  streams closed, \<^verbatim>\<open>'close'\<close> with the negative error number as exit code. Both listeners
  of \<^verbatim>\<open>executeStandard\<close> are registered with \<^verbatim>\<open>process.on\<close>, and neither looks whether the
  other has run.
\<close>

definition env_spawn_failure :: environment where
  "env_spawn_failure =
     \<lparr>xcprettyIsFunction = False, xcprettyFn = (\<lambda>c. XcThrows []),
      childProcess = (\<lambda>c. [ProcError ''spawn sh ENOENT'', Close (Some (- 2))]),
      now = (\<lambda>n. 0), uuidv4 = ''op''\<rparr>"

text \<open>
  A build that reports two file counts, the second lower than the first, and succeeds.
\<close>

definition env_file_counts :: environment where
  "env_file_counts =
     \<lparr>xcprettyIsFunction = False, xcprettyFn = (\<lambda>c. XcThrows []),
      childProcess = (\<lambda>c. [StdoutData ''2 of 4 files'', StdoutData ''1 of 4 files'', Close (Some 0)]),
      now = (\<lambda>n. 0), uuidv4 = ''op''\<rparr>"


text \<open>
  A build that fails with exit code 65; with the helper present, calling it throws.
\<close>

definition env_failing_build :: "bool \<Rightarrow> environment" where
  "env_failing_build helper =
     \<lparr>xcprettyIsFunction = helper, xcprettyFn = (\<lambda>c. XcThrows ''xcpretty is not a function''),
      childProcess = (\<lambda>c. [StderrData ''error: no such scheme'', Close (Some 65)]),
      now = (\<lambda>n. 0), uuidv4 = ''op''\<rparr>"

section \<open>Properties of the destination resolver\<close>

lemma isSimulatorPlatform_cases:
  "isSimulatorPlatform p \<longleftrightarrow>
     p = iOSSimulator \<or> p = watchOSSimulator \<or> p = tvOSSimulator \<or> p = visionOSSimulator"
  by (auto simp: isSimulatorPlatform_def)

text \<open>
  C3. For every simulator platform, a destination resolved with a simulator identifier is
  exactly \<open>platform=<P>,id=<ID>\<close>, whatever simulator name, OS flag and architecture
  are passed along: the identifier takes precedence over the name. The build entry point
  resolves its destination the same way.
\<close>

theorem simulator_id_takes_precedence:
  assumes "isSimulatorPlatform p" and "ident \<noteq> []"
  shows "constructDestinationString p name (Some ident) useLatest ar
           = Inr (''platform='' @ platform_str p @ '',id='' @ ident)
       \<and> buildDestination
            \<lparr>po_platform = p, po_simulatorName = name, po_simulatorId = Some ident,
             po_useLatestOS = useLatest, po_arch = ar, po_logPrefix = logPrefix\<rparr>
           = Inr (Inr (''platform='' @ platform_str p @ '',id='' @ ident))"
  using assms by (simp add: constructDestinationString_def buildDestination_def truthy_def)

theorem simulator_id_takes_precedence_witness:
  "constructDestinationString iOSSimulator (Some ''iPhone 16'') (Some ''ABC-123'') None None
     = Inr ''platform=iOS Simulator,id=ABC-123''"
  using simulator_id_takes_precedence [of iOSSimulator "''ABC-123''" "Some ''iPhone 16''" None None]
  by (simp add: isSimulatorPlatform_cases)

text \<open>
  C4. For every simulator platform, a destination resolved with a simulator name and no
  identifier is \<open>platform=<P>,name=<NAME>,OS=latest\<close> when \<open>useLatestOS\<close> is true or
  omitted, and \<open>platform=<P>,name=<NAME>\<close> when it is false.
\<close>

theorem simulator_name_destination:
  assumes "isSimulatorPlatform p" and "name \<noteq> []" and "\<not> truthy ident"
  shows "constructDestinationString p (Some name) ident (Some True) ar
           = Inr (''platform='' @ platform_str p @ '',name='' @ name @ '',OS=latest'')
       \<and> constructDestinationString p (Some name) ident None ar
           = Inr (''platform='' @ platform_str p @ '',name='' @ name @ '',OS=latest'')
       \<and> constructDestinationString p (Some name) ident (Some False) ar
           = Inr (''platform='' @ platform_str p @ '',name='' @ name)"
  using assms by (simp add: constructDestinationString_def truthy_def)

theorem simulator_name_destination_witness:
  "constructDestinationString iOSSimulator (Some ''iPhone 16'') None (Some True) None
     = Inr ''platform=iOS Simulator,name=iPhone 16,OS=latest''
   \<and> constructDestinationString iOSSimulator (Some ''iPhone 16'') None None None
     = Inr ''platform=iOS Simulator,name=iPhone 16,OS=latest''
   \<and> constructDestinationString iOSSimulator (Some ''iPhone 16'') None (Some False) None
     = Inr ''platform=iOS Simulator,name=iPhone 16''"
  using simulator_name_destination [of iOSSimulator "''iPhone 16''" None None]
  by (simp add: isSimulatorPlatform_cases truthy_def)

text \<open>
  C5. For every simulator platform, resolving a destination with neither a simulator
  identifier nor a simulator name fails: the resolver throws (it returns no destination,
  generic or other), and the build entry point answers with an error response before any
  command is assembled, so no child process is started.
\<close>

theorem missing_simulator_is_an_error:
  assumes "isSimulatorPlatform p" and "\<not> truthy name" and "\<not> truthy ident"
  shows "constructDestinationString p name ident useLatest ar
           = Inl (Error (''Simulator name or ID is required for specific '' @ platform_str p
                           @ '' operations''))
       \<and> executeXcodeBuild env params
            \<lparr>po_platform = p, po_simulatorName = name, po_simulatorId = ident,
             po_useLatestOS = useLatest, po_arch = ar, po_logPrefix = logPrefix\<rparr> buildAction
           = Responded (''For '' @ platform_str p
                          @ '' platform, either simulatorId or simulatorName must be provided'') True
       \<and> spawned (outcome_effects (executeXcodeBuild env params
            \<lparr>po_platform = p, po_simulatorName = name, po_simulatorId = ident,
             po_useLatestOS = useLatest, po_arch = ar, po_logPrefix = logPrefix\<rparr> buildAction)) = []"
  using assms
  by (simp add: constructDestinationString_def executeXcodeBuild_def buildDestination_def)

theorem missing_simulator_is_an_error_witness:
  "constructDestinationString iOSSimulator None None None None
     = Inl (Error ''Simulator name or ID is required for specific iOS Simulator operations'')
   \<and> executeXcodeBuild env_file_counts
        \<lparr>sb_workspacePath = None, sb_projectPath = Some ''App.xcodeproj'', sb_scheme = ''App'',
         sb_configuration = ''Debug'', sb_derivedDataPath = None, sb_extraArgs = None\<rparr>
        \<lparr>po_platform = iOSSimulator, po_simulatorName = None, po_simulatorId = None,
         po_useLatestOS = None, po_arch = None, po_logPrefix = ''iOS Simulator Build''\<rparr> ''build''
       = Responded ''For iOS Simulator platform, either simulatorId or simulatorName must be provided''
           True"
  using missing_simulator_is_an_error [of iOSSimulator None None None None env_file_counts
      "\<lparr>sb_workspacePath = None, sb_projectPath = Some ''App.xcodeproj'', sb_scheme = ''App'',
         sb_configuration = ''Debug'', sb_derivedDataPath = None, sb_extraArgs = None\<rparr>"
      "''iOS Simulator Build''" "''build''"]
  by (simp add: isSimulatorPlatform_cases truthy_def)

section \<open>Properties of argument quoting\<close>

text \<open>
  The three cases of the quoting step, and its idempotence on tokens without a line
  terminator.
\<close>

lemma quote_arg_already_quoted: "already_quoted arg \<Longrightarrow> quote_arg arg = arg"
  by (simp add: quote_arg_def)

lemma quote_arg_plain: "\<not> needs_quoting arg \<Longrightarrow> quote_arg arg = arg"
  by (simp add: quote_arg_def)

lemma quote_arg_wraps:
  "needs_quoting arg \<Longrightarrow> \<not> already_quoted arg \<Longrightarrow> quote_arg arg = dquote # escape arg @ [dquote]"
  by (simp add: quote_arg_def)

lemma quote_arg_wraps_whitespace:
  "list_ex is_space arg \<Longrightarrow> \<not> already_quoted arg \<Longrightarrow> quote_arg arg = dquote # escape arg @ [dquote]"
  by (rule quote_arg_wraps) (auto simp: needs_quoting_def list_ex_iff)

lemma escape_line_terminators:
  "list_all (\<lambda>x. \<not> line_terminator x) arg \<Longrightarrow> list_all (\<lambda>x. \<not> line_terminator x) (escape arg)"
  by (induction arg) (simp_all add: line_terminator_def backslash_def dquote_def)

lemma wrapped_is_quoted:
  "list_all (\<lambda>x. \<not> line_terminator x) arg \<Longrightarrow> already_quoted (dquote # escape arg @ [dquote])"
  by (simp add: already_quoted_def escape_line_terminators)

lemma quote_arg_idempotent:
  assumes "list_all (\<lambda>x. \<not> line_terminator x) arg"
  shows "quote_arg (quote_arg arg) = quote_arg arg"
proof (cases "needs_quoting arg \<and> \<not> already_quoted arg")
  case True
  then have "quote_arg arg = dquote # escape arg @ [dquote]" by (simp add: quote_arg_def)
  then show ?thesis
    using wrapped_is_quoted [OF assms] by (simp add: quote_arg_already_quoted)
next
  case False
  then have "quote_arg arg = arg" by (auto simp: quote_arg_def)
  then show ?thesis by simp
qed

text \<open>
  C6. The quoting step is meant to leave alone a token that is already wrapped in double
  quotes. The test for that is a regular expression whose \<^verbatim>\<open>.\<close> does not match a line
  terminator, so a wrapped token with a line feed inside is not recognised: it is wrapped
  and escaped a second time, and quoting a token that contains a line feed twice differs
  from quoting it once.
\<close>

theorem quoted_token_with_newline_is_requoted:
  "already_quoted newline_token = False
   \<and> hd newline_token = dquote \<and> last newline_token = dquote
   \<and> quote_arg newline_token
       = [dquote, backslash, dquote, CHR ''a'', CHR 0x0A, CHR ''b'', backslash, dquote, dquote]
   \<and> quote_arg (quote_arg [CHR ''a'', CHR 0x0A, CHR ''b'']) \<noteq> quote_arg [CHR ''a'', CHR 0x0A, CHR ''b'']"
  by (simp add: newline_token_def quote_arg_def needs_quoting_def already_quoted_def
        line_terminator_def is_space_def dquote_def squote_def backslash_def)

section \<open>Properties of the executor\<close>

subsection \<open>Steps of a standard run\<close>

lemma advances_refl: "state_ok s \<Longrightarrow> advances s s"
  by (simp add: advances_def)

lemma advances_trans: "advances a b \<Longrightarrow> advances b c \<Longrightarrow> advances a c"
  unfolding advances_def by (elim conjE exE) simp

lemma advances_ok: "advances s s' \<Longrightarrow> state_ok s'"
  by (simp add: advances_def)

lemma sendProgressUpdate_advances:
  "state_ok s \<Longrightarrow> advances s (sendProgressUpdate env cb opId m f s)"
  by (simp add: advances_def sendProgressUpdate_def emit_def state_ok_def Let_def)

lemma enter_phase_advances:
  assumes "state_ok s" shows "advances s (enter_phase env cb opId phase s)"
proof (cases "currentPhase s = phase")
  case True
  with assms show ?thesis by (simp add: enter_phase_def advances_refl)
next
  case False
  define t where "t = s\<lparr>currentPhase := phase,
      estimatedProgress := min (of_int \<lfloor>25 * (of_int (indexOf buildPhases phase) :: rat)\<rfloor>) 90\<rparr>"
  have ok: "state_ok t" using assms by (simp add: state_ok_def t_def)
  have a1: "advances s t" using ok by (simp add: advances_def t_def)
  have a2: "advances t (sendProgressUpdate env cb opId (phase @ '' phase...'') True t)"
    using ok by (rule sendProgressUpdate_advances)
  have "enter_phase env cb opId phase s
      = sendProgressUpdate env cb opId (phase @ '' phase...'') True t"
    using False by (simp add: enter_phase_def t_def)
  then show ?thesis
    using advances_trans [OF a1 a2] by simp
qed

lemma count_file_advances:
  assumes "state_ok s" shows "advances s (count_file phase s)"
proof (cases "phase = ''CompileC'' \<or> phase = ''CompileSwift''")
  case False
  with assms show ?thesis by (simp add: count_file_def advances_refl)
next
  case True
  define t where "t = s\<lparr>processedFiles := processedFiles s + 1\<rparr>"
  have ok: "state_ok t" using assms by (simp add: state_ok_def t_def)
  have a1: "advances s t" using ok by (simp add: advances_def t_def)
  show ?thesis
  proof (cases "totalFiles t > 0")
    case False
    then have "count_file phase s = t"
      using True by (simp add: count_file_def t_def Let_def)
    with a1 show ?thesis by simp
  next
    case pos: True
    define x :: rat where "x = min (estimatedProgress t
        + min (of_int \<lfloor>of_int (processedFiles t) / of_int (totalFiles t) * (100 :: rat)\<rfloor>) 100 / 4) 95"
    have "state_ok (t\<lparr>estimatedProgress := x\<rparr>)"
      using ok by (simp add: state_ok_def x_def)
    then have a2: "advances t (t\<lparr>estimatedProgress := x\<rparr>)"
      by (simp add: advances_def)
    have "count_file phase s = t\<lparr>estimatedProgress := x\<rparr>"
      using True pos by (simp add: count_file_def t_def x_def Let_def)
    then show ?thesis
      using advances_trans [OF a1 a2] by simp
  qed
qed

lemma phase_loop_advances:
  "state_ok s \<Longrightarrow> advances s (phase_loop env cb opId ps line s)"
proof (induction ps)
  case Nil
  then show ?case by (simp add: advances_refl)
next
  case (Cons phase ps)
  show ?case
  proof (cases "includes_str line phase")
    case False
    with Cons show ?thesis by simp
  next
    case True
    have a1: "advances s (enter_phase env cb opId phase s)"
      using Cons.prems by (rule enter_phase_advances)
    have a2: "advances (enter_phase env cb opId phase s)
                (count_file phase (enter_phase env cb opId phase s))"
      using a1 by (intro count_file_advances advances_ok)
    have a3: "advances (count_file phase (enter_phase env cb opId phase s))
                (sendProgressUpdate env cb opId (''Processing: '' @ take 80 line @ ''...'') False
                   (count_file phase (enter_phase env cb opId phase s)))"
      using a2 by (intro sendProgressUpdate_advances advances_ok)
    have "phase_loop env cb opId (phase # ps) line s
        = sendProgressUpdate env cb opId (''Processing: '' @ take 80 line @ ''...'') False
                   (count_file phase (enter_phase env cb opId phase s))"
      using True by simp
    then show ?thesis
      using advances_trans [OF advances_trans [OF a1 a2] a3] by simp
  qed
qed

lemma parseInt_nonneg: "0 \<le> parseInt ds"
proof -
  have "0 \<le> acc \<Longrightarrow> 0 \<le> foldl (\<lambda>acc c. acc * 10 + digit_value c) acc ds" for acc
  proof (induction ds arbitrary: acc)
    case Nil
    then show ?case by simp
  next
    case (Cons d ds)
    have "0 \<le> digit_value d" by (simp add: digit_value_def)
    with Cons.prems have "0 \<le> acc * 10 + digit_value d" by simp
    then show ?case using Cons.IH by simp
  qed
  then show ?thesis by (simp add: parseInt_def)
qed

lemma file_count_step_advances:
  assumes "state_ok s" shows "advances s (file_count_step env cb opId line s)"
proof (cases "fileCountMatch line")
  case None
  with assms show ?thesis by (simp add: file_count_step_def advances_refl)
next
  case (Some m)
  obtain g1 g2 where m: "m = (g1, g2)" by (cases m)
  define s1 where "s1 = s\<lparr>processedFiles := parseInt g1, totalFiles := parseInt g2\<rparr>"
  have ok1: "state_ok s1" using assms by (simp add: state_ok_def parseInt_nonneg s1_def)
  have a1: "advances s s1" using ok1 by (simp add: advances_def s1_def)
  show ?thesis
  proof (cases "totalFiles s1 > 0")
    case False
    then have "file_count_step env cb opId line s = s1"
      using Some m by (simp add: file_count_step_def Let_def s1_def)
    with a1 show ?thesis by simp
  next
    case True
    define s2 where "s2 = s1\<lparr>estimatedProgress :=
        min (of_int \<lfloor>of_int (processedFiles s1) / of_int (totalFiles s1) * (90 :: rat)\<rfloor>) 95\<rparr>"
    have ok2: "state_ok s2" using ok1 by (simp add: state_ok_def s2_def)
    have a2: "advances s1 s2" using ok2 by (simp add: advances_def s2_def)
    have a3: "advances s2 (sendProgressUpdate env cb opId
        (''Processing file '' @ show_int (processedFiles s1) @ '' of '' @ show_int (totalFiles s1))
        True s2)"
      using ok2 by (rule sendProgressUpdate_advances)
    have "file_count_step env cb opId line s = sendProgressUpdate env cb opId
        (''Processing file '' @ show_int (processedFiles s1) @ '' of '' @ show_int (totalFiles s1))
        True s2"
      using Some m True by (simp add: file_count_step_def Let_def s1_def s2_def)
    then show ?thesis
      using advances_trans [OF advances_trans [OF a1 a2] a3] by simp
  qed
qed

lemma process_line_advances:
  assumes "state_ok s" shows "advances s (process_line env cb opId s line)"
proof -
  have a1: "advances s (phase_loop env cb opId buildPhases line s)"
    using assms by (rule phase_loop_advances)
  have a2: "advances (phase_loop env cb opId buildPhases line s)
      (file_count_step env cb opId line (phase_loop env cb opId buildPhases line s))"
    using a1 by (intro file_count_step_advances advances_ok)
  show ?thesis
    unfolding process_line_def by (rule advances_trans [OF a1 a2])
qed

lemma foldl_process_line_advances:
  "state_ok s \<Longrightarrow> advances s (foldl (process_line env cb opId) s ls)"
proof (induction ls arbitrary: s)
  case Nil
  then show ?case by (simp add: advances_refl)
next
  case (Cons l ls)
  have a1: "advances s (process_line env cb opId s l)"
    using Cons.prems by (rule process_line_advances)
  then have a2: "advances (process_line env cb opId s l)
      (foldl (process_line env cb opId) (process_line env cb opId s l) ls)"
    by (intro Cons.IH advances_ok)
  show ?case
    using advances_trans [OF a1 a2] by simp
qed

subsection \<open>Output chunks\<close>

lemma data_advance_trans:
  "data_advance o1 e1 a b \<Longrightarrow> data_advance o2 e2 b c \<Longrightarrow> data_advance (o1 @ o2) (e1 @ e2) a c"
  unfolding data_advance_def by (elim conjE exE) simp

lemma advances_data_advance: "advances s s' \<Longrightarrow> data_advance [] [] s s'"
  by (simp add: advances_def data_advance_def)

lemma on_stdout_data_advance:
  assumes "state_ok s" shows "data_advance chunk [] s (on_stdout env cb opId chunk s)"
proof -
  define t where "t = s\<lparr>stdout := stdout s @ chunk\<rparr>"
  have ok: "state_ok t" using assms by (simp add: state_ok_def t_def)
  then have a1: "data_advance chunk [] s t" by (simp add: data_advance_def t_def)
  show ?thesis
  proof (cases cb)
    case False
    then have "on_stdout env cb opId chunk s = t" by (simp add: on_stdout_def t_def)
    with a1 show ?thesis by simp
  next
    case True
    have "advances t (foldl (process_line env cb opId) t (split_lines chunk))"
      using ok by (rule foldl_process_line_advances)
    then have a2: "data_advance [] [] t (foldl (process_line env cb opId) t (split_lines chunk))"
      by (rule advances_data_advance)
    have "on_stdout env cb opId chunk s = foldl (process_line env cb opId) t (split_lines chunk)"
      using True by (simp add: on_stdout_def t_def)
    then show ?thesis
      using data_advance_trans [OF a1 a2] by simp
  qed
qed

lemma on_stderr_data_advance:
  assumes "state_ok s" shows "data_advance [] chunk s (on_stderr env cb opId chunk s)"
proof -
  define t where "t = s\<lparr>stderr := stderr s @ chunk\<rparr>"
  have ok: "state_ok t" using assms by (simp add: state_ok_def t_def)
  then have a1: "data_advance [] chunk s t" by (simp add: data_advance_def t_def)
  show ?thesis
  proof (cases cb)
    case False
    then have "on_stderr env cb opId chunk s = t" by (simp add: on_stderr_def t_def)
    with a1 show ?thesis by simp
  next
    case True
    have "advances t (sendProgressUpdate env cb opId (''Warning: '' @ take 100 chunk @ ''...'') True t)"
      using ok by (rule sendProgressUpdate_advances)
    then have a2: "data_advance [] [] t
        (sendProgressUpdate env cb opId (''Warning: '' @ take 100 chunk @ ''...'') True t)"
      by (rule advances_data_advance)
    have "on_stderr env cb opId chunk s
        = sendProgressUpdate env cb opId (''Warning: '' @ take 100 chunk @ ''...'') True t"
      using True by (simp add: on_stderr_def t_def)
    then show ?thesis
      using data_advance_trans [OF a1 a2] by simp
  qed
qed

lemma data_run:
  "list_all is_data ds \<Longrightarrow> state_ok s \<Longrightarrow>
   data_advance (stdout_of ds) (stderr_of ds) s (foldl (handle_event env cb opId logPrefix) s ds)"
proof (induction ds arbitrary: s)
  case Nil
  then show ?case by (simp add: data_advance_def)
next
  case (Cons e ds)
  from Cons.prems have rest: "list_all is_data ds" by simp
  show ?case
  proof (cases e)
    case (StdoutData chunk)
    have a1: "data_advance chunk [] s (on_stdout env cb opId chunk s)"
      using Cons.prems(2) by (rule on_stdout_data_advance)
    then have "state_ok (on_stdout env cb opId chunk s)" by (simp add: data_advance_def)
    then have a2: "data_advance (stdout_of ds) (stderr_of ds) (on_stdout env cb opId chunk s)
        (foldl (handle_event env cb opId logPrefix) (on_stdout env cb opId chunk s) ds)"
      using rest by (intro Cons.IH)
    show ?thesis
      using data_advance_trans [OF a1 a2] StdoutData by simp
  next
    case (StderrData chunk)
    have a1: "data_advance [] chunk s (on_stderr env cb opId chunk s)"
      using Cons.prems(2) by (rule on_stderr_data_advance)
    then have "state_ok (on_stderr env cb opId chunk s)" by (simp add: data_advance_def)
    then have a2: "data_advance (stdout_of ds) (stderr_of ds) (on_stderr env cb opId chunk s)
        (foldl (handle_event env cb opId logPrefix) (on_stderr env cb opId chunk s) ds)"
      using rest by (intro Cons.IH)
    show ?thesis
      using data_advance_trans [OF a1 a2] StderrData by simp
  next
    case (Close code)
    with Cons.prems show ?thesis by simp
  next
    case (ProcError m)
    with Cons.prems show ?thesis by simp
  qed
qed

lemma standard_init_ok: "state_ok (standard_init c)"
  by (simp add: standard_init_def state_ok_def)

subsection \<open>Termination events\<close>

lemma on_close_resolved:
  "resolved s = None \<Longrightarrow>
   resolved (on_close env cb opId logPrefix exitCode s)
     = Some (close_response logPrefix exitCode (stdout s) (stderr s))"
  by (simp add: on_close_def close_response_def resolve_def emit_def Let_def)

lemma executeStandard_exit:
  assumes "childProcess env c = ds @ [Close exitCode]" and "list_all is_data ds"
  shows "fst (executeStandard env c logPrefix cb opId)
           = Some (close_response logPrefix exitCode (stdout_of ds) (stderr_of ds))"
proof -
  define s where "s = foldl (handle_event env cb opId logPrefix) (standard_init c) ds"
  have "data_advance (stdout_of ds) (stderr_of ds) (standard_init c) s"
    unfolding s_def using assms(2) standard_init_ok by (rule data_run)
  then have "stdout s = stdout_of ds" "stderr s = stderr_of ds" "resolved s = None"
    by (simp_all add: data_advance_def standard_init_def)
  then have "resolved (on_close env cb opId logPrefix exitCode s)
      = Some (close_response logPrefix exitCode (stdout_of ds) (stderr_of ds))"
    using on_close_resolved [of s env cb opId logPrefix exitCode] by simp
  then show ?thesis
    by (simp add: executeStandard_def assms(1) s_def)
qed

lemma updates_append: "updates (xs @ ys) = updates xs @ updates ys"
  by (induction xs rule: updates.induct) simp_all

lemma updates_map_Progress: "updates (map Progress vs) = vs"
  by (induction vs) simp_all

lemma updates_running:
  "list_all running_update es \<Longrightarrow> list_all is_running (updates es)"
  by (induction es rule: updates.induct) (simp_all add: is_running_def)

lemma updates_running_bound:
  "list_all running_update es \<Longrightarrow> list_all (\<lambda>u. progress u \<le> 95) (updates es)"
  by (induction es rule: updates.induct) simp_all

lemma on_close_effects:
  assumes cb
  shows "\<exists>u. effects (on_close env cb opId logPrefix exitCode s) = effects s @ [Progress u]
           \<and> is_terminal u
           \<and> status u = (if exitCode = Some 0 then completed else failed)
           \<and> progress u = (if exitCode = Some 0 then 100 else estimatedProgress s)"
  using assms
  by (simp add: on_close_def resolve_def emit_def Let_def is_terminal_def split: option.splits)

lemma on_error_effects:
  assumes cb
  shows "\<exists>u. effects (on_error env cb opId logPrefix m s) = effects s @ [Progress u]
           \<and> is_terminal u \<and> status u = failed \<and> progress u = 0"
  using assms
  by (simp add: on_error_def resolve_def emit_def Let_def is_terminal_def split: option.splits)

lemma termination_event_effects:
  assumes cb and "is_termination e"
  shows "\<exists>u. effects (handle_event env cb opId logPrefix s e) = effects s @ [Progress u]
           \<and> is_terminal u"
proof (cases e)
  case (Close code)
  then show ?thesis using on_close_effects [OF assms(1), of env opId logPrefix code s] by auto
next
  case (ProcError m)
  then show ?thesis using on_error_effects [OF assms(1), of env opId logPrefix m s] by auto
qed (use assms in simp_all)

lemma termination_run:
  assumes cb
  shows "list_all is_termination ts \<Longrightarrow>
     \<exists>vs. effects (foldl (handle_event env cb opId logPrefix) s ts) = effects s @ map Progress vs
          \<and> list_all is_terminal vs \<and> length vs = length ts"
proof (induction ts arbitrary: s)
  case Nil
  then show ?case by simp
next
  case (Cons e ts)
  then have e: "is_termination e" and rest: "list_all is_termination ts" by simp_all
  obtain u where u: "effects (handle_event env cb opId logPrefix s e) = effects s @ [Progress u]"
      "is_terminal u"
    using termination_event_effects [OF assms e] by blast
  obtain vs where vs: "effects (foldl (handle_event env cb opId logPrefix)
        (handle_event env cb opId logPrefix s e) ts)
      = effects (handle_event env cb opId logPrefix s e) @ map Progress vs"
      "list_all is_terminal vs" "length vs = length ts"
    using Cons.IH [OF rest] by blast
  have "effects (foldl (handle_event env cb opId logPrefix) s (e # ts))
      = effects s @ map Progress (u # vs)"
    using u(1) vs(1) by simp
  moreover have "list_all is_terminal (u # vs)" using u(2) vs(2) by simp
  moreover have "length (u # vs) = length (e # ts)" using vs(3) by simp
  ultimately show ?case by blast
qed

lemma well_ordered_split:
  assumes "well_ordered evs"
  shows "\<exists>ds ts. evs = ds @ ts \<and> list_all is_data ds \<and> list_all is_termination ts"
proof -
  have "evs = takeWhile is_data evs @ dropWhile is_data evs" by simp
  moreover have "list_all is_data (takeWhile is_data evs)"
    by (simp add: list_all_iff) (meson set_takeWhileD)
  ultimately show ?thesis using assms unfolding well_ordered_def by blast
qed

lemma is_data_not_termination: "is_termination e = (\<not> is_data e)"
  by (cases e) simp_all

lemma filter_termination_split:
  "list_all is_data ds \<Longrightarrow> list_all is_termination ts \<Longrightarrow>
   length (filter is_termination (ds @ ts)) = length ts"
  by (simp add: list_all_iff is_data_not_termination)

text \<open>
  The updates of a standard run whose events are chunks followed by terminations.
\<close>

lemma standard_run_updates:
  assumes cb and "childProcess env c = ds @ ts"
    and "list_all is_data ds" and "list_all is_termination ts"
  shows "\<exists>us vs. updates (snd (executeStandard env c logPrefix cb opId)) = us @ vs
           \<and> list_all is_running us \<and> list_all (\<lambda>u. progress u \<le> 95) us
           \<and> list_all is_terminal vs \<and> length vs = length ts"
proof -
  define s where "s = foldl (handle_event env cb opId logPrefix) (standard_init c) ds"
  have "data_advance (stdout_of ds) (stderr_of ds) (standard_init c) s"
    unfolding s_def using assms(3) standard_init_ok by (rule data_run)
  then obtain es where es: "effects s = [Spawn c] @ es" "list_all running_update es"
    by (auto simp: data_advance_def standard_init_def)
  obtain vs where vs: "effects (foldl (handle_event env cb opId logPrefix) s ts)
      = effects s @ map Progress vs" "list_all is_terminal vs" "length vs = length ts"
    using termination_run [OF assms(1) assms(4)] by blast
  have "snd (executeStandard env c logPrefix cb opId) = [Spawn c] @ es @ map Progress vs"
    using es(1) vs(1) by (simp add: executeStandard_def assms(2) s_def)
  then have "updates (snd (executeStandard env c logPrefix cb opId)) = updates es @ vs"
    by (simp add: updates_append updates_map_Progress)
  then show ?thesis
    using updates_running [OF es(2)] updates_running_bound [OF es(2)] vs(2,3) by blast
qed

lemma running_not_terminal: "is_running u \<Longrightarrow> \<not> is_terminal u"
  by (simp add: is_running_def is_terminal_def)

lemma terminal_not_running: "is_terminal u \<Longrightarrow> \<not> is_running u"
  by (auto simp: is_running_def is_terminal_def)

lemma count_terminal:
  assumes "list_all is_running us" and "list_all is_terminal vs"
  shows "length (filter is_terminal (us @ vs)) = length vs"
    and "list_all is_terminal (dropWhile is_running (us @ vs))"
proof -
  have f: "filter is_terminal us = []"
    using assms(1) by (induction us) (simp_all add: running_not_terminal)
  have g: "filter is_terminal vs = vs"
    using assms(2) by (induction vs) simp_all
  show "length (filter is_terminal (us @ vs)) = length vs" using f g by simp
  have "dropWhile is_running (us @ vs) = dropWhile is_running vs"
    using assms(1) by (induction us) simp_all
  moreover have "dropWhile is_running vs = vs"
    using assms(2) by (cases vs) (simp_all add: terminal_not_running)
  ultimately show "list_all is_terminal (dropWhile is_running (us @ vs))"
    using assms(2) by simp
qed

text \<open>
  Every event extends the effects and leaves a settled promise settled.
\<close>

lemma termination_event_keeps:
  assumes "is_termination e"
  shows "estimatedProgress (handle_event env cb opId logPrefix s e) = estimatedProgress s"
    and "processedFiles (handle_event env cb opId logPrefix s e) = processedFiles s"
    and "stdout (handle_event env cb opId logPrefix s e) = stdout s"
    and "resolved s = Some r \<Longrightarrow> resolved (handle_event env cb opId logPrefix s e) = Some r"
    and "\<exists>es. effects (handle_event env cb opId logPrefix s e) = effects s @ es"
proof -
  consider code where "e = Close code" | m where "e = ProcError m"
    using assms by (cases e) simp_all
  then have "estimatedProgress (handle_event env cb opId logPrefix s e) = estimatedProgress s
      \<and> processedFiles (handle_event env cb opId logPrefix s e) = processedFiles s
      \<and> stdout (handle_event env cb opId logPrefix s e) = stdout s
      \<and> (resolved s = Some r \<longrightarrow> resolved (handle_event env cb opId logPrefix s e) = Some r)
      \<and> (\<exists>es. effects (handle_event env cb opId logPrefix s e) = effects s @ es)"
  proof cases
    case 1
    then show ?thesis
      by (cases "resolved s") (simp_all add: on_close_def resolve_def emit_def Let_def)
  next
    case 2
    then show ?thesis
      by (cases "resolved s") (simp_all add: on_error_def resolve_def emit_def Let_def)
  qed
  then show "estimatedProgress (handle_event env cb opId logPrefix s e) = estimatedProgress s"
    and "processedFiles (handle_event env cb opId logPrefix s e) = processedFiles s"
    and "stdout (handle_event env cb opId logPrefix s e) = stdout s"
    and "resolved s = Some r \<Longrightarrow> resolved (handle_event env cb opId logPrefix s e) = Some r"
    and "\<exists>es. effects (handle_event env cb opId logPrefix s e) = effects s @ es"
    by simp_all
qed

lemma handle_event_grows:
  assumes "state_ok s"
  shows "state_ok (handle_event env cb opId logPrefix s e)
       \<and> (\<forall>r. resolved s = Some r \<longrightarrow> resolved (handle_event env cb opId logPrefix s e) = Some r)
       \<and> (\<exists>es. effects (handle_event env cb opId logPrefix s e) = effects s @ es)"
proof (cases "is_data e")
  case True
  then have "data_advance (stdout_of [e]) (stderr_of [e]) s
      (foldl (handle_event env cb opId logPrefix) s [e])"
    using assms by (intro data_run) simp_all
  then show ?thesis by (auto simp: data_advance_def)
next
  case False
  then have t: "is_termination e" by (simp add: is_data_not_termination)
  have "state_ok (handle_event env cb opId logPrefix s e)"
    using assms termination_event_keeps(1,2) [OF t] by (simp add: state_ok_def)
  then show ?thesis
    using termination_event_keeps(4,5) [OF t] by blast
qed

lemma run_grows:
  "state_ok s \<Longrightarrow>
   (\<forall>r. resolved s = Some r \<longrightarrow> resolved (foldl (handle_event env cb opId logPrefix) s evs) = Some r)
   \<and> (\<exists>es. effects (foldl (handle_event env cb opId logPrefix) s evs) = effects s @ es)"
proof (induction evs arbitrary: s)
  case Nil
  then show ?case by simp
next
  case (Cons e evs)
  define t where "t = handle_event env cb opId logPrefix s e"
  have step: "state_ok t" "\<forall>r. resolved s = Some r \<longrightarrow> resolved t = Some r"
      "\<exists>es. effects t = effects s @ es"
    using handle_event_grows [OF Cons.prems, of env cb opId logPrefix e] by (simp_all add: t_def)
  have rest: "\<forall>r. resolved t = Some r \<longrightarrow> resolved (foldl (handle_event env cb opId logPrefix) t evs) = Some r"
      "\<exists>es. effects (foldl (handle_event env cb opId logPrefix) t evs) = effects t @ es"
    using Cons.IH [OF step(1)] by simp_all
  obtain es1 where es1: "effects t = effects s @ es1" using step(3) by blast
  obtain es2 where es2: "effects (foldl (handle_event env cb opId logPrefix) t evs) = effects t @ es2"
    using rest(2) by blast
  have "effects (foldl (handle_event env cb opId logPrefix) s (e # evs)) = effects s @ (es1 @ es2)"
    using es1 es2 by (simp add: t_def)
  then have "\<exists>es. effects (foldl (handle_event env cb opId logPrefix) s (e # evs)) = effects s @ es"
    by blast
  moreover have "\<forall>r. resolved s = Some r \<longrightarrow>
      resolved (foldl (handle_event env cb opId logPrefix) s (e # evs)) = Some r"
    using step(2) rest(1) by (simp add: t_def)
  ultimately show ?case by blast
qed

lemma runs_command_executeStandard:
  "list_ex (runs_command c) (snd (executeStandard env c logPrefix cb opId))"
proof -
  obtain es where "effects (foldl (handle_event env cb opId logPrefix) (standard_init c)
      (childProcess env c)) = effects (standard_init c) @ es"
    using run_grows [OF standard_init_ok] by blast
  then show ?thesis
    by (simp add: executeStandard_def standard_init_def)
qed

text \<open>
  A process that could not be started: the promise is resolved with a failure that
  names the error, and the first update after the spawn is a failed one with progress 0.
\<close>

lemma spawn_failure_response:
  assumes "childProcess env c = ProcError m # evs"
  shows "fst (executeStandard env c logPrefix cb opId)
           = Some \<lparr>success = False, output = [], error = Some (''Failed to start process: '' @ m)\<rparr>"
proof -
  define s where "s = on_error env cb opId logPrefix m (standard_init c)"
  have r: "resolved s
      = Some \<lparr>success = False, output = [], error = Some (''Failed to start process: '' @ m)\<rparr>"
    by (simp add: s_def on_error_def resolve_def emit_def standard_init_def Let_def)
  have "state_ok s"
    by (simp add: s_def on_error_def resolve_def emit_def standard_init_def Let_def state_ok_def)
  then have "resolved (foldl (handle_event env cb opId logPrefix) s evs)
      = Some \<lparr>success = False, output = [], error = Some (''Failed to start process: '' @ m)\<rparr>"
    using run_grows r by blast
  then show ?thesis
    by (simp add: executeStandard_def assms s_def)
qed

lemma spawn_failure_update:
  assumes "childProcess env c = ProcError m # evs"
  shows "\<exists>u es. snd (executeStandard env c logPrefix True opId) = Spawn c # Progress u # es
           \<and> status u = failed \<and> progress u = 0"
proof -
  define s where "s = on_error env True opId logPrefix m (standard_init c)"
  obtain u where u: "effects s = [Spawn c] @ [Progress u]" "status u = failed" "progress u = 0"
    using on_error_effects [of True env opId logPrefix m "standard_init c"]
    by (auto simp: s_def standard_init_def)
  have "state_ok s"
    by (simp add: s_def on_error_def resolve_def emit_def standard_init_def Let_def state_ok_def)
  then obtain es where "effects (foldl (handle_event env True opId logPrefix) s evs) = effects s @ es"
    using run_grows by blast
  then have "snd (executeStandard env c logPrefix True opId) = Spawn c # Progress u # es"
    using u(1) by (simp add: executeStandard_def assms s_def)
  then show ?thesis using u(2,3) by blast
qed

subsection \<open>The xcpretty path\<close>

lemma onProgress_advances:
  assumes "state_ok s" shows "advances s (onProgress env cb opId s d)"
proof (cases cb)
  case False
  with assms show ?thesis by (simp add: onProgress_def advances_refl)
next
  case True
  define s1 where "s1 = (if truthy (data_phase d) then
                     (let ph = tmpl (data_phase d) in
                      s\<lparr>currentPhase := ph,
                        estimatedProgress :=
                          (if ph = ''Clean'' then 5
                           else if ph = ''Compile'' then 25
                           else if ph = ''Link'' then 75
                           else if ph = ''Copy'' \<or> ph = ''CodeSign'' then 90
                           else estimatedProgress s)\<rparr>)
                   else s)"
  define s2 where "s2 = (if truthy_num (data_fileCount d) \<and> truthy_num (data_fileIndex d) then
                     s1\<lparr>estimatedProgress :=
                          min (of_int \<lfloor>of_int (the (data_fileIndex d)) / of_int (the (data_fileCount d))
                                         * (100 :: rat)\<rfloor>) 95\<rparr>
                   else s1)"
  define s3 where "s3 = s2\<lparr>clockReads := Suc (clockReads s2)\<rparr>"
  have ok1: "state_ok s1" using assms by (simp add: s1_def state_ok_def Let_def)
  have a1: "advances s s1" using ok1 assms by (simp add: s1_def advances_def Let_def)
  have ok2: "state_ok s2" using ok1 by (simp add: s2_def state_ok_def)
  have a2: "advances s1 s2" using ok2 by (simp add: s2_def advances_def)
  have ok3: "state_ok s3" using ok2 by (simp add: s3_def state_ok_def)
  have a3: "advances s2 s3" using ok3 by (simp add: s3_def advances_def)
  define r where "r = onProgress env cb opId s d"
  have r: "r = (if now env (clockReads s2) - lastProgressUpdate s3 > progressUpdateInterval then
              emit \<lparr>operationId = or_else opId (uuidv4 env), status = running,
                    progress = estimatedProgress s3,
                    message = or_else (data_message d) (''Processing '' @ currentPhase s3 @ ''...''),
                    details = Some (''Phase: '' @ currentPhase s3)\<rparr>
                (s3\<lparr>lastProgressUpdate := now env (clockReads s2)\<rparr>)
            else s3)"
    using True unfolding r_def onProgress_def s1_def s2_def s3_def Let_def by simp
  have a4: "advances s3 r"
    using ok3 unfolding r by (simp add: advances_def emit_def state_ok_def)
  show ?thesis
    using advances_trans [OF advances_trans [OF advances_trans [OF a1 a2] a3] a4]
    by (simp add: r_def)
qed

lemma foldl_onProgress_advances:
  "state_ok s \<Longrightarrow> advances s (foldl (onProgress env cb opId) s ds)"
proof (induction ds arbitrary: s)
  case Nil
  then show ?case by (simp add: advances_refl)
next
  case (Cons d ds)
  have a1: "advances s (onProgress env cb opId s d)"
    using Cons.prems by (rule onProgress_advances)
  then have a2: "advances (onProgress env cb opId s d)
      (foldl (onProgress env cb opId) (onProgress env cb opId s d) ds)"
    by (intro Cons.IH advances_ok)
  show ?case using advances_trans [OF a1 a2] by simp
qed

lemma xcpretty_init_ok: "state_ok (xcpretty_init c)"
  by (simp add: xcpretty_init_def state_ok_def)

lemma on_fulfilled_effects:
  assumes cb
  shows "\<exists>u. effects (on_fulfilled env cb opId logPrefix r s) = effects s @ [Progress u]
           \<and> is_terminal u"
  using assms
  by (simp add: on_fulfilled_def resolve_def emit_def Let_def is_terminal_def split: option.splits)

lemma on_rejected_effects:
  assumes cb
  shows "\<exists>u. effects (on_rejected env cb opId m s) = effects s @ [Progress u] \<and> is_terminal u"
  using assms
  by (simp add: on_rejected_def resolve_def emit_def Let_def is_terminal_def split: option.splits)

lemma xcpretty_run_updates:
  assumes cb and "xcprettyFn env c = XcSettles ds settled"
  shows "\<exists>us v. updates (snd (executeWithXcpretty env c logPrefix cb opId)) = us @ [v]
           \<and> list_all is_running us \<and> is_terminal v"
proof -
  define s where "s = foldl (onProgress env cb opId) (xcpretty_init c) ds"
  have "advances (xcpretty_init c) s"
    unfolding s_def using xcpretty_init_ok by (rule foldl_onProgress_advances)
  then obtain es where es: "effects s = [Xcpretty c] @ es" "list_all running_update es"
    by (auto simp: advances_def xcpretty_init_def)
  define s' where "s' = (case settled of
                       Inr r \<Rightarrow> on_fulfilled env cb opId logPrefix r s
                     | Inl (Error m) \<Rightarrow> on_rejected env cb opId m s)"
  have "\<exists>u. effects s' = effects s @ [Progress u] \<and> is_terminal u"
  proof (cases settled)
    case (Inr r)
    then show ?thesis
      using on_fulfilled_effects [OF assms(1), of env opId logPrefix r s] by (simp add: s'_def)
  next
    case (Inl err)
    then show ?thesis
      using on_rejected_effects [OF assms(1), of env opId _ s]
      by (cases err) (simp add: s'_def)
  qed
  then obtain v where v: "effects s' = effects s @ [Progress v]" "is_terminal v" by blast
  have "snd (executeWithXcpretty env c logPrefix cb opId) = effects s'"
    unfolding s'_def s_def by (simp add: executeWithXcpretty_def assms(2) Let_def)
  then have "updates (snd (executeWithXcpretty env c logPrefix cb opId)) = updates es @ [v]"
    using es(1) v(1) by (simp add: updates_append)
  then show ?thesis
    using updates_running [OF es(2)] v(2) by blast
qed

lemma fallback_updates:
  assumes "xcprettyFn env c = XcThrows m"
  shows "updates (snd (executeWithXcpretty env c logPrefix cb opId))
           = updates (snd (executeStandard env c logPrefix cb opId))"
    and "fst (executeWithXcpretty env c logPrefix cb opId) = None"
  using assms by (simp_all add: executeWithXcpretty_def)

lemma runs_command_executeWithXcpretty:
  "list_ex (runs_command c) (snd (executeWithXcpretty env c logPrefix cb opId))"
proof (cases "xcprettyFn env c")
  case (XcThrows m)
  then show ?thesis by (simp add: executeWithXcpretty_def)
next
  case (XcSettles ds settled)
  define s where "s = foldl (onProgress env cb opId) (xcpretty_init c) ds"
  have "advances (xcpretty_init c) s"
    unfolding s_def using xcpretty_init_ok by (rule foldl_onProgress_advances)
  then obtain es where es: "effects s = Xcpretty c # es"
    by (auto simp: advances_def xcpretty_init_def)
  define s' where "s' = (case settled of
                       Inr r \<Rightarrow> on_fulfilled env cb opId logPrefix r s
                     | Inl (Error m) \<Rightarrow> on_rejected env cb opId m s)"
  have "\<exists>es'. effects s' = effects s @ es'"
  proof (cases settled)
    case (Inr r)
    then show ?thesis
      by (simp add: s'_def on_fulfilled_def resolve_def emit_def Let_def split: option.splits)
  next
    case (Inl err)
    then show ?thesis
      by (cases err)
         (simp add: s'_def on_rejected_def resolve_def emit_def Let_def split: option.splits)
  qed
  then obtain es' where "effects s' = Xcpretty c # es @ es'" using es by auto
  moreover have "snd (executeWithXcpretty env c logPrefix cb opId) = effects s'"
    unfolding s'_def s_def by (simp add: executeWithXcpretty_def XcSettles Let_def)
  ultimately show ?thesis by simp
qed

lemma runs_command_executeXcodeCommand:
  "list_ex (runs_command (commandString_of command))
     (snd (executeXcodeCommand env command logPrefix cb))"
  using runs_command_executeStandard [of "commandString_of command" env logPrefix cb "Some (uuidv4 env)"]
    runs_command_executeWithXcpretty [of "commandString_of command" env logPrefix cb "Some (uuidv4 env)"]
  by (simp add: executeXcodeCommand_def Let_def)

text \<open>
  The updates of an execution are running updates followed by terminal ones.
\<close>

lemma executeXcodeCommand_updates:
  assumes "well_ordered (childProcess env (commandString_of command))"
  shows "\<exists>us vs. updates (snd (executeXcodeCommand env command logPrefix True)) = us @ vs
           \<and> list_all is_running us \<and> list_all is_terminal vs
           \<and> length vs = settlements env command"
proof -
  define c where "c = commandString_of command"
  define first where "first = \<lparr>operationId = uuidv4 env, status = running, progress = 0,
      message = ''Starting '' @ logPrefix @ ''...'', details = None\<rparr>"
  have first: "is_running first" by (simp add: first_def is_running_def)
  obtain ds ts where split: "childProcess env c = ds @ ts" "list_all is_data ds"
      "list_all is_termination ts"
    using well_ordered_split [OF assms] unfolding c_def by blast
  have closings: "length (filter is_termination (childProcess env c)) = length ts"
    using filter_termination_split [OF split(2,3)] split(1) by simp
  have std: "\<exists>us vs. updates (snd (executeStandard env c logPrefix True opId)) = us @ vs
           \<and> list_all is_running us \<and> list_all is_terminal vs \<and> length vs = length ts" for opId
    using standard_run_updates [where cb = True and logPrefix = logPrefix and opId = opId, OF _ split]
    by auto
  show ?thesis
  proof (cases "useXcpretty env command")
    case False
    obtain us vs where uv: "updates (snd (executeStandard env c logPrefix True (Some (uuidv4 env))))
        = us @ vs" "list_all is_running us" "list_all is_terminal vs" "length vs = length ts"
      using std by blast
    have "updates (snd (executeXcodeCommand env command logPrefix True)) = (first # us) @ vs"
      using False uv(1) by (simp add: executeXcodeCommand_def Let_def c_def first_def)
    moreover have "settlements env command = length ts"
      using False closings by (simp add: settlements_def Let_def c_def)
    moreover have "list_all is_running (first # us)" using first uv(2) by simp
    ultimately show ?thesis using uv(3,4) by metis
  next
    case True
    show ?thesis
    proof (cases "xcprettyFn env c")
      case (XcThrows m)
      obtain us vs where uv: "updates (snd (executeStandard env c logPrefix True (Some (uuidv4 env))))
          = us @ vs" "list_all is_running us" "list_all is_terminal vs" "length vs = length ts"
        using std by blast
      have "updates (snd (executeXcodeCommand env command logPrefix True)) = (first # us) @ vs"
        using True uv(1) fallback_updates(1) [OF XcThrows]
        by (simp add: executeXcodeCommand_def Let_def c_def first_def)
      moreover have "settlements env command = length ts"
        using True XcThrows closings by (simp add: settlements_def Let_def c_def)
      moreover have "list_all is_running (first # us)" using first uv(2) by simp
      ultimately show ?thesis using uv(3,4) by metis
    next
      case (XcSettles xs settled)
      obtain us v where uv: "updates (snd (executeWithXcpretty env c logPrefix True (Some (uuidv4 env))))
          = us @ [v]" "list_all is_running us" "is_terminal v"
        using xcpretty_run_updates [where cb = True and logPrefix = logPrefix, OF _ XcSettles]
        by blast
      have "updates (snd (executeXcodeCommand env command logPrefix True)) = (first # us) @ [v]"
        using True uv(1) by (simp add: executeXcodeCommand_def Let_def c_def first_def)
      moreover have "settlements env command = length [v]"
        using True XcSettles by (simp add: settlements_def Let_def c_def)
      moreover have "list_all is_terminal [v]" using uv(3) by simp
      moreover have "list_all is_running (first # us)" using first uv(2) by simp
      ultimately show ?thesis by metis
    qed
  qed
qed

subsection \<open>The updates of a standard run are linked\<close>




















subsection \<open>Results and progress of an execution\<close>

text \<open>
  C2. A command run by \<^verbatim>\<open>executeStandard\<close> to process exit (output chunks, then
  \<^verbatim>\<open>'close'\<close>) resolves the promise with a response whose success flag says whether the exit
  code is 0. On success the output is the captured standard output, or the generic
  message when nothing was captured, and there is no error; otherwise the output is the
  captured standard output and the error is the captured standard error, or the generic
  message naming the exit code when nothing was captured. The error text is never empty.
\<close>

theorem exit_code_decides_response:
  assumes "childProcess env c = ds @ [Close exitCode]" and "list_all is_data ds"
  shows "\<exists>r. fst (executeStandard env c logPrefix cb opId) = Some r
           \<and> success r = (exitCode = Some 0)
           \<and> output r = (if exitCode = Some 0 \<and> stdout_of ds = []
                          then logPrefix @ '' operation completed successfully'' else stdout_of ds)
           \<and> error r = (if exitCode = Some 0 then None
                         else Some (if stderr_of ds \<noteq> [] then stderr_of ds
                                    else ''Operation failed with exit code '' @ show_code exitCode
                                           @ ''. No stderr output.''))
           \<and> error r \<noteq> Some []"
  using executeStandard_exit [OF assms, of logPrefix cb opId]
  by (simp add: close_response_def)

theorem exit_code_decides_response_witness:
  "fst (executeStandard (env_failing_build False) ''xcodebuild'' ''Build'' False None)
     = Some \<lparr>success = False, output = [], error = Some ''error: no such scheme''\<rparr>"
proof -
  have h: "childProcess (env_failing_build False) ''xcodebuild''
      = [StderrData ''error: no such scheme''] @ [Close (Some 65)]"
    by (simp add: env_failing_build_def)
  have d: "list_all is_data [StderrData ''error: no such scheme'']" by simp
  obtain r where r: "fst (executeStandard (env_failing_build False) ''xcodebuild'' ''Build'' False None)
      = Some r" "success r = False" "output r = []" "error r = Some ''error: no such scheme''"
    using exit_code_decides_response [OF h d, of "''Build''" False None] by auto
  then have "r = \<lparr>success = False, output = [], error = Some ''error: no such scheme''\<rparr>"
    by (cases r) simp
  with r(1) show ?thesis by simp
qed

text \<open>
  Which executions hand the caller a response: on the direct path every run that comes
  to a termination event does, with the response of the first such event; on the
  xcpretty path every settlement of the helper's promise does; after a throwing helper
  none does.
\<close>

lemma termination_event_resolves:
  assumes "is_termination e" and "resolved s = None"
  shows "\<exists>r. resolved (handle_event env cb opId logPrefix s e) = Some r"
proof -
  consider code where "e = Close code" | m where "e = ProcError m"
    using assms(1) by (cases e) simp_all
  then show ?thesis
  proof cases
    case 1
    then show ?thesis
      using assms(2) by (simp add: on_close_def resolve_def emit_def Let_def)
  next
    case 2
    then show ?thesis
      using assms(2) by (simp add: on_error_def resolve_def emit_def Let_def)
  qed
qed

lemma standard_run_resolves:
  assumes "childProcess env c = ds @ e # evs" and "list_all is_data ds" and "is_termination e"
  shows "\<exists>r. fst (executeStandard env c logPrefix cb opId) = Some r"
proof -
  define s where "s = foldl (handle_event env cb opId logPrefix) (standard_init c) ds"
  define t where "t = handle_event env cb opId logPrefix s e"
  have "data_advance (stdout_of ds) (stderr_of ds) (standard_init c) s"
    unfolding s_def using assms(2) standard_init_ok by (rule data_run)
  then have s: "resolved s = None" "state_ok s"
    by (simp_all add: data_advance_def standard_init_def)
  obtain r where r: "resolved t = Some r"
    using termination_event_resolves [OF assms(3) s(1)] unfolding t_def by blast
  have "state_ok t"
    using handle_event_grows [OF s(2)] by (simp add: t_def)
  then have "resolved (foldl (handle_event env cb opId logPrefix) t evs) = Some r"
    using run_grows r by blast
  then show ?thesis
    by (simp add: executeStandard_def assms(1) s_def t_def)
qed

lemma direct_path_resolves:
  assumes "\<not> useXcpretty env command"
    and "childProcess env (commandString_of command) = ds @ e # evs"
    and "list_all is_data ds" and "is_termination e"
  shows "\<exists>r. fst (executeXcodeCommand env command logPrefix cb) = Some r"
  using assms(1) standard_run_resolves [OF assms(2,3,4), of logPrefix cb "Some (uuidv4 env)"]
  by (simp add: executeXcodeCommand_def Let_def)

lemma helper_settlement_resolves:
  assumes "useXcpretty env command"
    and "xcprettyFn env (commandString_of command) = XcSettles ds settled"
  shows "\<exists>r. fst (executeXcodeCommand env command logPrefix cb) = Some r"
proof -
  define c where "c = commandString_of command"
  define opId where "opId = Some (uuidv4 env)"
  define s where "s = foldl (onProgress env cb opId) (xcpretty_init c) ds"
  have "advances (xcpretty_init c) s"
    unfolding s_def using xcpretty_init_ok by (rule foldl_onProgress_advances)
  then have none: "resolved s = None"
    by (simp add: advances_def xcpretty_init_def)
  define s' where "s' = (case settled of
                       Inr r \<Rightarrow> on_fulfilled env cb opId logPrefix r s
                     | Inl (Error m) \<Rightarrow> on_rejected env cb opId m s)"
  have "\<exists>r. resolved s' = Some r"
  proof (cases settled)
    case (Inr r)
    then show ?thesis
      using none by (simp add: s'_def on_fulfilled_def resolve_def emit_def Let_def)
  next
    case (Inl err)
    then show ?thesis
      using none by (cases err) (simp add: s'_def on_rejected_def resolve_def emit_def Let_def)
  qed
  moreover have "fst (executeWithXcpretty env c logPrefix cb opId) = resolved s'"
    unfolding s'_def s_def c_def using assms(2)
    by (simp add: executeWithXcpretty_def Let_def)
  ultimately show ?thesis
    using assms(1) by (simp add: executeXcodeCommand_def Let_def c_def opId_def)
qed

text \<open>Whatever response an execution resolves with has the same shape on every path.\<close>

lemma handle_event_shape:
  assumes "state_ok s" and "\<forall>r. resolved s = Some r \<longrightarrow> well_shaped r"
  shows "\<forall>r. resolved (handle_event env cb opId logPrefix s e) = Some r \<longrightarrow> well_shaped r"
proof (cases "is_data e")
  case True
  then have "data_advance (stdout_of [e]) (stderr_of [e]) s
      (foldl (handle_event env cb opId logPrefix) s [e])"
    using assms(1) by (intro data_run) simp_all
  then have "resolved (handle_event env cb opId logPrefix s e) = resolved s"
    by (simp add: data_advance_def)
  with assms(2) show ?thesis by simp
next
  case False
  then consider code where "e = Close code" | m where "e = ProcError m"
    by (cases e) simp_all
  then show ?thesis
  proof cases
    case 1
    then show ?thesis
      using assms(2)
      by (cases "resolved s") (simp_all add: on_close_def resolve_def emit_def Let_def well_shaped_def)
  next
    case 2
    then show ?thesis
      using assms(2)
      by (cases "resolved s") (simp_all add: on_error_def resolve_def emit_def Let_def well_shaped_def)
  qed
qed

lemma run_shape:
  "state_ok s \<Longrightarrow> \<forall>r. resolved s = Some r \<longrightarrow> well_shaped r \<Longrightarrow>
   \<forall>r. resolved (foldl (handle_event env cb opId logPrefix) s evs) = Some r \<longrightarrow> well_shaped r"
proof (induction evs arbitrary: s)
  case Nil
  then show ?case by simp
next
  case (Cons e evs)
  define t where "t = handle_event env cb opId logPrefix s e"
  have ok: "state_ok t"
    using handle_event_grows [OF Cons.prems(1)] by (simp add: t_def)
  have shaped: "\<forall>r. resolved t = Some r \<longrightarrow> well_shaped r"
    unfolding t_def using Cons.prems by (rule handle_event_shape)
  have "\<forall>r. resolved (foldl (handle_event env cb opId logPrefix) t evs) = Some r \<longrightarrow> well_shaped r"
    using ok shaped by (rule Cons.IH)
  then show ?case by (simp add: t_def)
qed

lemma response_shape:
  assumes "fst (executeXcodeCommand env command logPrefix cb) = Some r"
  shows "well_shaped r"
proof -
  define c where "c = commandString_of command"
  define opId where "opId = Some (uuidv4 env)"
  have "\<forall>r. resolved (foldl (handle_event env cb opId logPrefix) (standard_init c)
      (childProcess env c)) = Some r \<longrightarrow> well_shaped r"
    by (rule run_shape [OF standard_init_ok]) (simp add: standard_init_def)
  then have std: "fst (executeStandard env c logPrefix cb opId) = Some r \<Longrightarrow> well_shaped r"
    by (simp add: executeStandard_def Let_def)
  show ?thesis
  proof (cases "useXcpretty env command")
    case False
    then show ?thesis
      using assms std by (simp add: executeXcodeCommand_def Let_def c_def opId_def)
  next
    case True
    then have run: "fst (executeWithXcpretty env c logPrefix cb opId) = Some r"
      using assms by (simp add: executeXcodeCommand_def Let_def c_def opId_def)
    show ?thesis
    proof (cases "xcprettyFn env c")
      case (XcThrows m)
      with run show ?thesis by (simp add: executeWithXcpretty_def)
    next
      case (XcSettles ds settled)
      define s where "s = foldl (onProgress env cb opId) (xcpretty_init c) ds"
      have "advances (xcpretty_init c) s"
        unfolding s_def using xcpretty_init_ok by (rule foldl_onProgress_advances)
      then have none: "resolved s = None"
        by (simp add: advances_def xcpretty_init_def)
      show ?thesis
      proof (cases settled)
        case (Inr res)
        have "resolved (on_fulfilled env cb opId logPrefix res s) = Some r"
          using run XcSettles Inr unfolding s_def by (simp add: executeWithXcpretty_def Let_def)
        moreover have "resolved (on_fulfilled env cb opId logPrefix res s)
            = Some (if result_status res = 0 then
                      \<lparr>success = True,
                       output = or_else (Some (result_output res))
                                  (logPrefix @ '' operation completed successfully''),
                       error = None\<rparr>
                    else
                      \<lparr>success = False, output = or_else (Some (result_output res)) [],
                       error = Some (or_else (result_error res)
                                       (''Operation failed with status code ''
                                          @ show_int (result_status res)))\<rparr>)"
          using none by (simp add: on_fulfilled_def resolve_def emit_def Let_def)
        ultimately show ?thesis
          by (cases "result_status res = 0") (auto simp: well_shaped_def)
      next
        case (Inl err)
        obtain m where m: "err = Error m" by (cases err)
        have "resolved (on_rejected env cb opId m s) = Some r"
          using run XcSettles Inl m unfolding s_def by (simp add: executeWithXcpretty_def Let_def)
        moreover have "resolved (on_rejected env cb opId m s)
            = Some \<lparr>success = False, output = [],
                     error = Some (''Failed during xcpretty execution: '' @ m)\<rparr>"
          using none by (simp add: on_rejected_def resolve_def emit_def Let_def)
        ultimately show ?thesis
          by (auto simp: well_shaped_def)
      qed
    qed
  qed
qed

lemma fallback_never_resolves:
  assumes "useXcpretty env command"
    and "xcprettyFn env (commandString_of command) = XcThrows m"
  shows "fst (executeXcodeCommand env command logPrefix cb) = None"
  using assms by (simp add: executeXcodeCommand_def executeWithXcpretty_def Let_def)



text \<open>
  C7, as stated, fails: when the shell cannot be started the child process raises
  \<^verbatim>\<open>'error'\<close> and then \<^verbatim>\<open>'close'\<close>, and each listener sends a failed update.
\<close>

theorem spawn_failure_emits_two_terminal_updates:
  "\<not> exactly_one_terminal_last
       (updates (snd (executeXcodeCommand env_spawn_failure [''xcodebuild'', ''-version''] ''Version'' True)))"
  by code_simp

text \<open>
  C7, amended. With a progress callback, and no output chunk delivered after a
  termination event, an execution sends one terminal update for each time it comes to an
  end (each \<^verbatim>\<open>'close'\<close> or \<^verbatim>\<open>'error'\<close> of the child process; the one settlement of the
  helper's promise on the xcpretty path), and from the first terminal update on every
  update is terminal: no running update follows.
\<close>

theorem terminal_updates_close_the_run:
  assumes "well_ordered (childProcess env (commandString_of command))"
  shows "length (filter is_terminal (updates (snd (executeXcodeCommand env command logPrefix True))))
           = settlements env command
       \<and> list_all is_terminal
           (dropWhile is_running (updates (snd (executeXcodeCommand env command logPrefix True))))"
proof -
  obtain us vs where uv: "updates (snd (executeXcodeCommand env command logPrefix True)) = us @ vs"
      "list_all is_running us" "list_all is_terminal vs" "length vs = settlements env command"
    using executeXcodeCommand_updates [OF assms] by blast
  show ?thesis
    using count_terminal [OF uv(2,3)] uv(1,4) by simp
qed

theorem terminal_updates_close_the_run_witness:
  "well_ordered (childProcess env_spawn_failure (commandString_of [''xcodebuild'', ''-version'']))
   \<and> length (filter is_terminal
        (updates (snd (executeXcodeCommand env_spawn_failure [''xcodebuild'', ''-version''] ''Version'' True))))
       = 2
   \<and> list_all is_terminal (dropWhile is_running
        (updates (snd (executeXcodeCommand env_spawn_failure [''xcodebuild'', ''-version''] ''Version'' True))))"
proof -
  have h: "well_ordered (childProcess env_spawn_failure (commandString_of [''xcodebuild'', ''-version'']))"
    by (simp add: well_ordered_def env_spawn_failure_def)
  have n: "settlements env_spawn_failure [''xcodebuild'', ''-version''] = 2"
    by (simp add: settlements_def env_spawn_failure_def useXcpretty_def)
  show ?thesis
    using h n terminal_updates_close_the_run [OF h, of "''Version''"] by simp
qed





section \<open>Properties of \<^verbatim>\<open>addXcodeParameters\<close>\<close>

text \<open>
  C10. When \<open>addXcodeParameters\<close> is called with a simulator platform, no explicit
  destination and neither simulator name nor identifier, the resolver's error is caught:
  the call returns, the tokens appended are those of the other parameters followed by the
  extra arguments, exactly as if no platform had been given (neither \<open>-destination\<close>
  nor a descriptor is added), and handing the resulting command to the executor runs it.
\<close>

theorem destination_error_is_swallowed:
  assumes "platform params = Some p" and "isSimulatorPlatform p"
    and "\<not> truthy (destination params)"
    and "\<not> truthy (simulatorName params)" and "\<not> truthy (simulatorId params)"
  shows "addXcodeParameters command params
           = command @ leading_tokens params @ extra_tokens params
       \<and> addXcodeParameters command params
           = addXcodeParameters command (params\<lparr>platform := None\<rparr>)
       \<and> list_ex (runs_command (commandString_of (addXcodeParameters command params)))
            (snd (executeXcodeCommand env (addXcodeParameters command params) logPrefix cb))"
proof -
  have "constructDestinationString p (simulatorName params) (simulatorId params) u None
          = Inl (Error (''Simulator name or ID is required for specific '' @ platform_str p
                          @ '' operations''))" for u
    using assms by (simp add: constructDestinationString_def)
  then have "addXcodeParameters command params
           = command @ leading_tokens params @ extra_tokens params"
    and "addXcodeParameters command params
           = addXcodeParameters command (params\<lparr>platform := None\<rparr>)"
    using assms
    by (simp_all add: addXcodeParameters_def leading_tokens_def extra_tokens_def Let_def
          split: option.splits)
  then show ?thesis
    using runs_command_executeXcodeCommand by blast
qed

theorem destination_error_is_swallowed_witness:
  "addXcodeParameters [''xcodebuild'']
      \<lparr>workspacePath = None, projectPath = Some ''App.xcodeproj'', scheme = Some ''App'',
       configuration = None, derivedDataPath = None, platform = Some iOSSimulator,
       destination = None, simulatorName = None, simulatorId = None, useLatestOS = None,
       arch = None, extraArgs = Some [''-quiet'']\<rparr>
     = [''xcodebuild'', ''-project'', ''App.xcodeproj'', ''-scheme'', ''App'', ''-quiet'']"
  using destination_error_is_swallowed [of
      "\<lparr>workspacePath = None, projectPath = Some ''App.xcodeproj'', scheme = Some ''App'',
       configuration = None, derivedDataPath = None, platform = Some iOSSimulator,
       destination = None, simulatorName = None, simulatorId = None, useLatestOS = None,
       arch = None, extraArgs = Some [''-quiet'']\<rparr>" iOSSimulator "[''xcodebuild'']"]
  by (simp add: isSimulatorPlatform_cases truthy_def leading_tokens_def extra_tokens_def)

end
